theory Spec2Isabelle
  imports Complex_Main "HOL-Library.Multiset"
begin

section \<open>Weighted MaxSAT theory plugin (src/opt/weighted_maxsat.cpp)\<close>

text \<open>
  A shallow embedding of \<^verbatim>\<open>smt::theory_weighted_maxsat\<close> and of the entry point
  \<^verbatim>\<open>opt::weighted_maxsat\<close>. The plugin's fields form a record, every member function
  takes the plugin and the host context and returns them updated. A result of
  \<open>None\<close> stands for undefined behaviour of the C++: an out-of-range \<^verbatim>\<open>vector::operator[]\<close>,
  a \<^verbatim>\<open>u_map::operator[]\<close> on a missing key, a \<^verbatim>\<open>pop_back\<close> on an empty vector.
  Weights are \<^verbatim>\<open>rational\<close>, modelled by \<^typ>\<open>rat\<close>.
\<close>

subsection \<open>Data model\<close>

text \<open>\<^verbatim>\<open>theory_var\<close> and \<^verbatim>\<open>bool_var\<close> are \<^verbatim>\<open>int\<close> in the source; the plugin stores only the
  non-negative ids that \<^verbatim>\<open>mk_var\<close> and \<^verbatim>\<open>mk_bool_var\<close> return.\<close>

type_synonym theory_var = nat
type_synonym bool_var = nat

text \<open>Terms are opaque: a caller's formula, a fresh constant made by
  \<^verbatim>\<open>mk_fresh_const\<close>, or a disjunction made by \<^verbatim>\<open>mk_or\<close>.\<close>

datatype expr = Atom nat | Fresh_const nat | Or expr expr

text \<open>A literal is a boolean variable with a sign; the sign is \<open>True\<close> for a negated literal.\<close>

datatype literal = Literal bool_var bool

definition literal :: "bool_var \<Rightarrow> literal" where
  "literal v = Literal v False"

fun lnot :: "literal \<Rightarrow> literal" where
  "lnot (Literal v s) = Literal v (\<not> s)"

datatype lbool = l_false | l_undef | l_true

datatype final_check_status = FC_DONE | FC_CONTINUE | FC_GIVEUP

text \<open>The two trail objects \<^verbatim>\<open>assign_eh\<close> pushes: \<^verbatim>\<open>value_trail\<close> keeps the old value of
  \<^verbatim>\<open>m_cost\<close>, \<^verbatim>\<open>push_back_vector\<close> refers to \<^verbatim>\<open>m_costs\<close>.\<close>

datatype trail_entry = Value_trail rat | Push_back_vector

record theory_weighted_maxsat =
  m_vars :: "expr list"
  m_fmls :: "expr list"
  m_weights :: "rat list"
  m_costs :: "theory_var list"
  m_cost_save :: "theory_var list"
  m_cost :: rat
  m_min_cost :: rat
  m_bool2var :: "bool_var \<rightharpoonup> theory_var"
  m_var2bool :: "theory_var \<rightharpoonup> bool_var"
  m_var2enode :: "expr list"

text \<open>The part of the host \<^verbatim>\<open>smt::context\<close> (and of the \<^verbatim>\<open>ast_manager\<close>) that the plugin
  reads or writes. The newest trail entry and the innermost scope are at the head of their
  lists; a scope records the length of the trail when it was opened.\<close>

record smt_context =
  fresh_count :: nat
  assertions :: "expr list"
  enodes :: "expr set"
  bool_var_of :: "expr \<rightharpoonup> bool_var"
  num_bool_vars :: nat
  var_theory :: "bool_var set"
  enode_flag :: "bool_var set"
  th_var :: "expr \<rightharpoonup> theory_var"
  trail :: "trail_entry list"
  scopes :: "nat list"
  th_axioms :: "literal list list"

definition empty_theory :: theory_weighted_maxsat where
  "empty_theory = \<lparr>m_vars = [], m_fmls = [], m_weights = [], m_costs = [], m_cost_save = [],
     m_cost = 0, m_min_cost = 0, m_bool2var = Map.empty, m_var2bool = Map.empty,
     m_var2enode = []\<rparr>"

definition empty_context :: smt_context where
  "empty_context = \<lparr>fresh_count = 0, assertions = [], enodes = {}, bool_var_of = Map.empty,
     num_bool_vars = 0, var_theory = {}, enode_flag = {}, th_var = Map.empty, trail = [],
     scopes = [], th_axioms = []\<rparr>"

subsection \<open>Host primitives\<close>

text \<open>Modelled from the spec: \<^verbatim>\<open>ast_manager::mk_fresh_const\<close> (ast.h is not under src/),
  "creates a fresh boolean relaxation atom": the next unused constant.\<close>

definition mk_fresh_const :: "smt_context \<Rightarrow> expr \<times> smt_context" where
  "mk_fresh_const ctx = (Fresh_const (fresh_count ctx), ctx\<lparr>fresh_count := Suc (fresh_count ctx)\<rparr>)"

text \<open>Modelled from the spec: \<^verbatim>\<open>context::assert_expr\<close> (smt_context.h is not under src/),
  "asserts the hard clause into the host search's constraint store".\<close>

definition assert_expr :: "expr \<Rightarrow> smt_context \<Rightarrow> smt_context" where
  "assert_expr e ctx = ctx\<lparr>assertions := assertions ctx @ [e]\<rparr>"

text \<open>Modelled from the spec: \<^verbatim>\<open>context::e_internalized\<close> (smt_context.h is not under
  src/), whether an atom has a "term-level representative". An enode is identified with its
  term, so \<^verbatim>\<open>get_enode\<close> is the identity.\<close>

definition e_internalized :: "smt_context \<Rightarrow> expr \<Rightarrow> bool" where
  "e_internalized ctx e = (e \<in> enodes ctx)"

text \<open>Modelled from the spec: \<^verbatim>\<open>context::mk_enode\<close> (smt_context.h is not under src/), which
  creates the term-level representative of an atom.\<close>

definition mk_enode :: "expr \<Rightarrow> smt_context \<Rightarrow> smt_context" where
  "mk_enode e ctx = ctx\<lparr>enodes := insert e (enodes ctx)\<rparr>"

text \<open>Modelled from the spec: \<^verbatim>\<open>context::b_internalized\<close> (smt_context.h is not under
  src/), whether an atom has a "boolean-decision id in the host search".\<close>

definition b_internalized :: "smt_context \<Rightarrow> expr \<Rightarrow> bool" where
  "b_internalized ctx e = (bool_var_of ctx e \<noteq> None)"

text \<open>Modelled from the spec: \<^verbatim>\<open>context::get_bool_var\<close> (smt_context.h is not under src/),
  the boolean-decision id of an atom that has one; the plugin calls it under
  \<^verbatim>\<open>b_internalized\<close> only.\<close>

definition get_bool_var :: "smt_context \<Rightarrow> expr \<Rightarrow> bool_var" where
  "get_bool_var ctx e = the (bool_var_of ctx e)"

text \<open>Modelled from the spec: \<^verbatim>\<open>context::mk_bool_var\<close> (smt_context.h is not under src/),
  which creates the "boolean-decision id" of an atom: a new decision takes the next unused
  id.\<close>

definition mk_bool_var :: "expr \<Rightarrow> smt_context \<Rightarrow> bool_var \<times> smt_context" where
  "mk_bool_var e ctx = (num_bool_vars ctx,
     ctx\<lparr>bool_var_of := (bool_var_of ctx)(e \<mapsto> num_bool_vars ctx),
         num_bool_vars := Suc (num_bool_vars ctx)\<rparr>)"

text \<open>Modelled from the spec: \<^verbatim>\<open>context::set_var_theory\<close> (smt_context.h is not under
  src/), "mark this module as the owner of that boolean-decision".\<close>

definition set_var_theory :: "bool_var \<Rightarrow> smt_context \<Rightarrow> smt_context" where
  "set_var_theory bv ctx = ctx\<lparr>var_theory := insert bv (var_theory ctx)\<rparr>"

text \<open>Modelled from the spec: \<^verbatim>\<open>context::set_enode_flag\<close> (smt_context.h is not under
  src/), the mark that the decision's atom has an enode, so that the host "routes
  assignment notifications" for it.\<close>

definition set_enode_flag :: "bool_var \<Rightarrow> smt_context \<Rightarrow> smt_context" where
  "set_enode_flag bv ctx = ctx\<lparr>enode_flag := insert bv (enode_flag ctx)\<rparr>"

text \<open>Modelled from the spec: \<^verbatim>\<open>theory::mk_var\<close> (smt_theory.h is not under src/). A
  theory-variable id is a sequence index: the base class appends the enode to its list of
  variables and returns the index of the new entry.\<close>

definition mk_var :: "expr \<Rightarrow> theory_weighted_maxsat \<Rightarrow> theory_var \<times> theory_weighted_maxsat" where
  "mk_var x th = (length (m_var2enode th), th\<lparr>m_var2enode := m_var2enode th @ [x]\<rparr>)"

text \<open>Modelled from the spec: \<^verbatim>\<open>context::attach_th_var\<close> (smt_context.h is not under
  src/), the host's record of the theory variable of an enode.\<close>

definition attach_th_var :: "expr \<Rightarrow> theory_var \<Rightarrow> smt_context \<Rightarrow> smt_context" where
  "attach_th_var x v ctx = ctx\<lparr>th_var := (th_var ctx)(x \<mapsto> v)\<rparr>"

text \<open>Modelled from the spec: \<^verbatim>\<open>context::push_trail\<close> (smt_context.h is not under src/),
  "record on the host's backtracking trail an inverse operation".\<close>

definition push_trail :: "trail_entry \<Rightarrow> smt_context \<Rightarrow> smt_context" where
  "push_trail e ctx = ctx\<lparr>trail := e # trail ctx\<rparr>"

text \<open>Modelled from the spec: \<^verbatim>\<open>context::mk_th_axiom\<close> (smt_context.h is not under src/),
  "submit this clause as a learned fact to the host search". The clauses are kept in the
  order of submission.\<close>

definition mk_th_axiom :: "literal list \<Rightarrow> smt_context \<Rightarrow> smt_context" where
  "mk_th_axiom lits ctx = ctx\<lparr>th_axioms := th_axioms ctx @ [lits]\<rparr>"

text \<open>Modelled from the spec: the \<^verbatim>\<open>undo\<close> methods of \<^verbatim>\<open>value_trail\<close> and
  \<^verbatim>\<open>push_back_vector\<close> (trail.h is not under src/), "restore \<open>running_cost\<close> and truncate
  \<open>asserted_ids\<close> back to its prior length".\<close>

fun undo :: "trail_entry \<Rightarrow> theory_weighted_maxsat \<Rightarrow> theory_weighted_maxsat option" where
  "undo (Value_trail old) th = Some (th\<lparr>m_cost := old\<rparr>)"
| "undo Push_back_vector th =
     (if m_costs th = [] then None else Some (th\<lparr>m_costs := butlast (m_costs th)\<rparr>))"

text \<open>Modelled from the spec: \<^verbatim>\<open>context::push_scope\<close> (smt_context.h is not under src/),
  which opens a scope and records the length of the trail.\<close>

definition push_scope :: "smt_context \<Rightarrow> smt_context" where
  "push_scope ctx = ctx\<lparr>scopes := length (trail ctx) # scopes ctx\<rparr>"

text \<open>Modelled from the spec: the host's undoing of its trail (smt_context.h is not under
  src/), newest entry first, down to a given length.\<close>

fun undo_trail :: "trail_entry list \<Rightarrow> nat \<Rightarrow> theory_weighted_maxsat \<Rightarrow>
    (theory_weighted_maxsat \<times> trail_entry list) option" where
  "undo_trail [] n th = Some (th, [])"
| "undo_trail (e # tr) n th =
     (if length (e # tr) \<le> n then Some (th, e # tr)
      else case undo e th of None \<Rightarrow> None | Some th' \<Rightarrow> undo_trail tr n th')"

text \<open>Modelled from the spec: \<^verbatim>\<open>context::pop_scope\<close> (smt_context.h is not under src/):
  backtracking over \<open>k\<close> scopes undoes the trail "back to its prior length", the one
  recorded when the outermost of them was opened. Popping more scopes than are open is
  undefined.\<close>

definition pop_scope :: "nat \<Rightarrow> theory_weighted_maxsat \<times> smt_context \<Rightarrow>
    (theory_weighted_maxsat \<times> smt_context) option" where
  "pop_scope k = (\<lambda>(th, ctx).
     if k = 0 then Some (th, ctx)
     else if length (scopes ctx) < k then None
     else case undo_trail (trail ctx) (scopes ctx ! (k - 1)) th of
            None \<Rightarrow> None
          | Some (th', tr) \<Rightarrow> Some (th', ctx\<lparr>trail := tr, scopes := drop k (scopes ctx)\<rparr>))"

subsection \<open>Sorting\<close>

text \<open>\<^verbatim>\<open>std::sort\<close> with a comparator promises a permutation of its input in which no
  element is followed by one that the comparator puts strictly before it; the order of
  elements that compare equal is left open. \<^verbatim>\<open>block\<close> therefore takes the sort as a
  parameter \<open>srt\<close>, and a result about \<^verbatim>\<open>block\<close> assumes this contract only, for the
  comparator \<^verbatim>\<open>compare_cost\<close> (a greater weight comes first).\<close>

type_synonym sorter = "(theory_var \<Rightarrow> theory_var \<Rightarrow> bool) \<Rightarrow> theory_var list \<Rightarrow> theory_var list"

definition std_sort_contract :: "sorter \<Rightarrow> bool" where
  "std_sort_contract srt \<longleftrightarrow>
     (\<forall>(key :: theory_var \<Rightarrow> rat) xs.
        mset (srt (\<lambda>v w. key v > key w) xs) = mset xs \<and>
        sorted_wrt (\<lambda>a b. key a \<ge> key b) (srt (\<lambda>v w. key v > key w) xs))"

text \<open>One admissible \<^verbatim>\<open>std::sort\<close>: an insertion sort that keeps elements that compare
  equal in their input order.\<close>

fun insert_before :: "('a \<Rightarrow> 'a \<Rightarrow> bool) \<Rightarrow> 'a \<Rightarrow> 'a list \<Rightarrow> 'a list" where
  "insert_before lt x [] = [x]"
| "insert_before lt x (y # ys) =
     (if lt y x then y # insert_before lt x ys else x # y # ys)"

fun insertion_sort :: "('a \<Rightarrow> 'a \<Rightarrow> bool) \<Rightarrow> 'a list \<Rightarrow> 'a list" where
  "insertion_sort lt [] = []"
| "insertion_sort lt (x # xs) = insert_before lt x (insertion_sort lt xs)"

subsection \<open>The plugin's member functions\<close>

text \<open>\<^verbatim>\<open>m_weights[v]\<close>: reading past the end of the vector is undefined.\<close>

definition weight_at :: "rat list \<Rightarrow> theory_var \<Rightarrow> rat option" where
  "weight_at ws v = (if v < length ws then Some (ws ! v) else None)"

text \<open>The total weight of a list of theory variables.\<close>

fun sum_weights :: "rat list \<Rightarrow> theory_var list \<Rightarrow> rat" where
  "sum_weights ws [] = 0"
| "sum_weights ws (v # vs) = ws ! v + sum_weights ws vs"

text \<open>\<^verbatim>\<open>assert_weighted\<close> (lines 87-98).\<close>

definition assert_weighted :: "expr \<Rightarrow> rat \<Rightarrow> theory_weighted_maxsat \<times> smt_context \<Rightarrow>
    theory_weighted_maxsat \<times> smt_context" where
  "assert_weighted fml w = (\<lambda>(th, ctx).
     let (var, ctx1) = mk_fresh_const ctx;
         wfml = Or var fml;
         ctx2 = assert_expr wfml ctx1
     in (th\<lparr>m_weights := m_weights th @ [w],
            m_vars := m_vars th @ [var],
            m_fmls := m_fmls th @ [fml],
            m_min_cost := m_min_cost th + w\<rparr>, ctx2))"

text \<open>\<^verbatim>\<open>init_search_eh\<close> (lines 59-85): \<open>bind_var\<close> is the body of the loop for one
  \<^verbatim>\<open>m_vars[i]\<close>, and the loop visits every element of \<^verbatim>\<open>m_vars\<close> in order.\<close>

definition bind_var :: "expr \<Rightarrow> theory_weighted_maxsat \<times> smt_context \<Rightarrow>
    theory_weighted_maxsat \<times> smt_context" where
  "bind_var var = (\<lambda>(th, ctx).
     let ctx1 = (if \<not> e_internalized ctx var then mk_enode var ctx else ctx);
         x = var;
         (bv, ctx2) = (if b_internalized ctx1 var
                       then (get_bool_var ctx1 var, ctx1)
                       else mk_bool_var var ctx1);
         ctx3 = set_var_theory bv ctx2;
         ctx4 = set_enode_flag bv ctx3;
         (v, th1) = mk_var x th;
         ctx5 = attach_th_var x v ctx4
     in (th1\<lparr>m_bool2var := (m_bool2var th1)(bv \<mapsto> v),
             m_var2bool := (m_var2bool th1)(v \<mapsto> bv)\<rparr>, ctx5))"

definition init_search_eh :: "theory_weighted_maxsat \<times> smt_context \<Rightarrow>
    theory_weighted_maxsat \<times> smt_context" where
  "init_search_eh = (\<lambda>(th, ctx). fold bind_var (m_vars th) (th, ctx))"

text \<open>\<^verbatim>\<open>compare_cost\<close> (lines 153-160), for in-range arguments.\<close>

definition compare_cost :: "rat list \<Rightarrow> theory_var \<Rightarrow> theory_var \<Rightarrow> bool" where
  "compare_cost ws v w = (ws ! v > ws ! w)"

text \<open>\<^verbatim>\<open>block\<close> (lines 162-183). The comparator reads \<^verbatim>\<open>m_weights[v]\<close> for the elements it
  compares, and sorting two or more elements compares each of them at least once.\<close>

definition sort_costs :: "sorter \<Rightarrow> rat list \<Rightarrow> theory_var list \<Rightarrow> theory_var list option" where
  "sort_costs srt ws costs =
     (if 2 \<le> length costs \<and> (\<exists>v \<in> set costs. \<not> v < length ws) then None
      else Some (srt (compare_cost ws) costs))"

text \<open>The \<^verbatim>\<open>for\<close> loop of lines 170-173; the list argument is what is left of \<^verbatim>\<open>costs\<close>
  from index \<^verbatim>\<open>i\<close> on.\<close>

fun block_loop :: "rat list \<Rightarrow> (theory_var \<rightharpoonup> bool_var) \<Rightarrow> rat \<Rightarrow> theory_var list \<Rightarrow>
    rat \<Rightarrow> literal list \<Rightarrow> (rat \<times> literal list) option" where
  "block_loop ws v2b min_cost [] weight lits = Some (weight, lits)"
| "block_loop ws v2b min_cost (c # cs) weight lits =
     (if weight < min_cost then
        (case weight_at ws c of
           None \<Rightarrow> None
         | Some w \<Rightarrow>
            (case v2b c of
               None \<Rightarrow> None
             | Some bv \<Rightarrow> block_loop ws v2b min_cost cs (weight + w) (lits @ [lnot (literal bv)])))
      else Some (weight, lits))"

definition block :: "sorter \<Rightarrow> theory_weighted_maxsat \<times> smt_context \<Rightarrow>
    (bool \<times> theory_weighted_maxsat \<times> smt_context) option" where
  "block srt = (\<lambda>(th, ctx).
     case sort_costs srt (m_weights th) (m_costs th) of
       None \<Rightarrow> None
     | Some costs \<Rightarrow>
        (case block_loop (m_weights th) (m_var2bool th) (m_min_cost th) costs 0 [] of
           None \<Rightarrow> None
         | Some (weight, lits) \<Rightarrow>
            let ctx1 = mk_th_axiom lits ctx;
                th1 = (if m_cost th < m_min_cost th
                       then th\<lparr>m_min_cost := weight, m_cost_save := m_costs th\<rparr>
                       else th)
            in Some (lits \<noteq> [], th1, ctx1)))"

text \<open>\<^verbatim>\<open>assign_eh\<close> (lines 100-114).\<close>

definition assign_eh :: "sorter \<Rightarrow> bool_var \<Rightarrow> bool \<Rightarrow> theory_weighted_maxsat \<times> smt_context \<Rightarrow>
    (theory_weighted_maxsat \<times> smt_context) option" where
  "assign_eh srt v is_true = (\<lambda>(th, ctx).
     if is_true then
       (case m_bool2var th v of
          None \<Rightarrow> None
        | Some tv \<Rightarrow>
           (case weight_at (m_weights th) tv of
              None \<Rightarrow> None
            | Some w \<Rightarrow>
               let ctx1 = push_trail (Value_trail (m_cost th)) ctx;
                   ctx2 = push_trail Push_back_vector ctx1;
                   th1 = th\<lparr>m_cost := m_cost th + w\<rparr>;
                   th2 = th1\<lparr>m_costs := m_costs th1 @ [tv]\<rparr>
               in if m_cost th2 > m_min_cost th2
                  then map_option snd (block srt (th2, ctx2))
                  else Some (th2, ctx2)))
     else Some (th, ctx))"

text \<open>\<^verbatim>\<open>final_check_eh\<close> (lines 116-123).\<close>

definition final_check_eh :: "sorter \<Rightarrow> theory_weighted_maxsat \<times> smt_context \<Rightarrow>
    (final_check_status \<times> theory_weighted_maxsat \<times> smt_context) option" where
  "final_check_eh srt s =
     (case block srt s of
        None \<Rightarrow> None
      | Some (b, s') \<Rightarrow> Some (if b then FC_CONTINUE else FC_DONE, s'))"

text \<open>\<^verbatim>\<open>reset_eh\<close> (lines 134-142).\<close>

text \<open>Modelled from the spec: \<^verbatim>\<open>theory::reset_eh\<close> (smt_theory.h is not under src/), which
  clears the base class's list of theory variables.\<close>

definition theory_reset_eh :: "theory_weighted_maxsat \<Rightarrow> theory_weighted_maxsat" where
  "theory_reset_eh th = th\<lparr>m_var2enode := []\<rparr>"

definition reset_eh :: "theory_weighted_maxsat \<Rightarrow> theory_weighted_maxsat" where
  "reset_eh th = (theory_reset_eh th)\<lparr>m_vars := [], m_weights := [], m_costs := [],
     m_cost := 0, m_min_cost := 0, m_cost_save := []\<rparr>"

text \<open>\<^verbatim>\<open>get_assignment\<close> (lines 46-57). The loop runs on the plugin after
  \<^verbatim>\<open>m_cost_save\<close> has been sorted in place; \<^verbatim>\<open>m_fmls[i]\<close> past the end is undefined.\<close>

function get_assignment_loop :: "theory_weighted_maxsat \<Rightarrow> nat \<Rightarrow> nat \<Rightarrow> expr list \<Rightarrow>
    expr list option" where
  "get_assignment_loop th i j result =
     (if i < length (m_vars th) then
        (if j < length (m_cost_save th) \<and> m_cost_save th ! j = i
         then get_assignment_loop th (Suc i) (Suc j) result
         else if i < length (m_fmls th)
              then get_assignment_loop th (Suc i) j (result @ [m_fmls th ! i])
              else None)
      else Some result)"
  by pat_completeness auto
termination
  by (relation "measure (\<lambda>(th, i, j, result). length (m_vars th) - i)") auto

declare get_assignment_loop.simps [simp del]

definition get_assignment :: "theory_weighted_maxsat \<Rightarrow> (expr list \<times> theory_weighted_maxsat) option" where
  "get_assignment th =
     (let th1 = th\<lparr>m_cost_save := sort (m_cost_save th)\<rparr>
      in case get_assignment_loop th1 0 0 [] of
           None \<Rightarrow> None
         | Some result \<Rightarrow> Some (result, th1))"

subsection \<open>The host search as a sequence of callbacks\<close>

text \<open>What the host does with the plugin during a search: it reports an assignment, asks
  for the final check, opens a scope, or backtracks over a number of scopes.\<close>

datatype event = Assign bool_var bool | Final_check | Push_scope | Pop_scope nat

fun step :: "sorter \<Rightarrow> event \<Rightarrow> theory_weighted_maxsat \<times> smt_context \<Rightarrow>
    (theory_weighted_maxsat \<times> smt_context) option" where
  "step srt (Assign v is_true) s = assign_eh srt v is_true s"
| "step srt Final_check s = map_option snd (final_check_eh srt s)"
| "step srt Push_scope s = Some (fst s, push_scope (snd s))"
| "step srt (Pop_scope k) s = pop_scope k s"

fun run :: "sorter \<Rightarrow> event list \<Rightarrow> theory_weighted_maxsat \<times> smt_context \<Rightarrow>
    (theory_weighted_maxsat \<times> smt_context) option" where
  "run srt [] s = Some s"
| "run srt (e # es) s = (case step srt e s of None \<Rightarrow> None | Some s' \<Rightarrow> run srt es s')"

subsection \<open>The entry point\<close>

text \<open>The loop of lines 207-209: \<^verbatim>\<open>weights[i]\<close> past the end of \<^verbatim>\<open>weights\<close> is undefined.\<close>

fun assert_soft :: "expr list \<Rightarrow> rat list \<Rightarrow> theory_weighted_maxsat \<times> smt_context \<Rightarrow>
    (theory_weighted_maxsat \<times> smt_context) option" where
  "assert_soft [] ws s = Some s"
| "assert_soft (f # fs) [] s = None"
| "assert_soft (f # fs) (w # ws) s = assert_soft fs ws (assert_weighted f w s)"

text \<open>\<^verbatim>\<open>opt::weighted_maxsat\<close> (lines 197-216). The solver holds the context and the plugin
  registered in it, if any; the host's \<^verbatim>\<open>check_sat_core\<close> is a parameter. The result is the
  returned status, the new contents of \<^verbatim>\<open>soft_constraints\<close> and the solver.\<close>

definition weighted_maxsat ::
    "(theory_weighted_maxsat \<times> smt_context \<Rightarrow> (lbool \<times> theory_weighted_maxsat \<times> smt_context) option) \<Rightarrow>
     theory_weighted_maxsat option \<times> smt_context \<Rightarrow> expr list \<Rightarrow> rat list \<Rightarrow>
     (lbool \<times> expr list \<times> theory_weighted_maxsat \<times> smt_context) option" where
  "weighted_maxsat check_sat_core s soft_constraints weights =
     (let wth = (case fst s of None \<Rightarrow> empty_theory | Some th \<Rightarrow> th)
      in case assert_soft soft_constraints weights (wth, snd s) of
           None \<Rightarrow> None
         | Some s1 \<Rightarrow>
            (case check_sat_core s1 of
               None \<Rightarrow> None
             | Some (result, th2, ctx2) \<Rightarrow>
                (case get_assignment th2 of
                   None \<Rightarrow> None
                 | Some (soft', th3) \<Rightarrow>
                    Some (if soft' \<noteq> [] \<and> result = l_false then l_true else result,
                          soft', th3, ctx2))))"

subsection \<open>Example sessions\<close>

text \<open>Three soft constraints of weights 3, 5 and 2 registered in a fresh solver, then bound
  by \<^verbatim>\<open>init_search_eh\<close>; and the same with three weights 1.\<close>

definition example_registered :: "theory_weighted_maxsat \<times> smt_context" where
  "example_registered =
     assert_weighted (Atom 2) 2 (assert_weighted (Atom 1) 5 (assert_weighted (Atom 0) 3
       (empty_theory, empty_context)))"

definition example_start :: "theory_weighted_maxsat \<times> smt_context" where
  "example_start = init_search_eh example_registered"

definition example_ties :: "theory_weighted_maxsat \<times> smt_context" where
  "example_ties = init_search_eh
     (assert_weighted (Atom 2) 1 (assert_weighted (Atom 1) 1 (assert_weighted (Atom 0) 1
       (empty_theory, empty_context))))"


subsection \<open>Definitions used to state the properties\<close>

text \<open>The clause that negates the relaxation literals (\<^verbatim>\<open>~literal(m_var2bool[v])\<close>) of a list
  of theory variables.\<close>

definition negated_literals :: "theory_weighted_maxsat \<Rightarrow> theory_var list \<Rightarrow> literal list" where
  "negated_literals th vs = map (\<lambda>v. lnot (literal (the (m_var2bool th v)))) vs"

text \<open>\<open>example_start\<close> after the host has assigned the decision of constraint 2 to true.\<close>

definition example_assigned :: "theory_weighted_maxsat \<times> smt_context" where
  "example_assigned =
     ((fst example_start)\<lparr>m_cost := 2, m_costs := [2]\<rparr>,
      push_trail Push_back_vector (push_trail (Value_trail 0) (snd example_start)))"

text \<open>Another admissible \<^verbatim>\<open>std::sort\<close>: it leaves elements that compare equal in the
  reverse of their input order.\<close>

definition reverse_insertion_sort :: "('a \<Rightarrow> 'a \<Rightarrow> bool) \<Rightarrow> 'a list \<Rightarrow> 'a list" where
  "reverse_insertion_sort lt xs = insertion_sort lt (rev xs)"

text \<open>The blocking clause as the specification words it: the snapshot sorted by weight,
  greatest first, ties by registration order (the smaller theory-variable id first), then
  accumulated from the head until the sum reaches the bound.\<close>

definition spec_order :: "rat list \<Rightarrow> theory_var \<Rightarrow> theory_var \<Rightarrow> bool" where
  "spec_order ws v w = (ws ! v > ws ! w \<or> (ws ! v = ws ! w \<and> v < w))"

fun spec_accumulate :: "rat list \<Rightarrow> rat \<Rightarrow> theory_var list \<Rightarrow> rat \<Rightarrow> theory_var list" where
  "spec_accumulate ws bound [] acc = []"
| "spec_accumulate ws bound (v # vs) acc =
     (if bound \<le> acc then [] else v # spec_accumulate ws bound vs (acc + ws ! v))"

definition spec_emit_block_clause :: "theory_weighted_maxsat \<Rightarrow> literal list" where
  "spec_emit_block_clause th =
     negated_literals th
       (spec_accumulate (m_weights th) (m_min_cost th)
          (insertion_sort (spec_order (m_weights th)) (m_costs th)) 0)"

text \<open>\<open>example_ties\<close> after constraint 2 alone was assigned and checked (which lowers the
  bound to 1), the host backtracked, and constraints 1 and 0 were assigned in this order.\<close>

definition example_tied :: "theory_weighted_maxsat \<times> smt_context" where
  "example_tied =
     ((fst example_ties)\<lparr>m_cost := 2, m_costs := [1, 0], m_min_cost := 1, m_cost_save := [2]\<rparr>,
      (snd example_ties)\<lparr>trail := [Push_back_vector, Value_trail 1, Push_back_vector, Value_trail 0],
         th_axioms := [[Literal 2 True], [Literal 1 True]]\<rparr>)"

text \<open>\<open>example_tied\<close> before the assignment of constraint 0.\<close>

definition example_tied_before :: "theory_weighted_maxsat \<times> smt_context" where
  "example_tied_before =
     ((fst example_ties)\<lparr>m_cost := 1, m_costs := [1], m_min_cost := 1, m_cost_save := [2]\<rparr>,
      (snd example_ties)\<lparr>trail := [Push_back_vector, Value_trail 0],
         th_axioms := [[Literal 2 True]]\<rparr>)"

text \<open>A host search for the examples: it calls \<^verbatim>\<open>init_search_eh\<close>, makes the given callbacks
  and reports \<^verbatim>\<open>l_false\<close>.\<close>

definition example_search :: "event list \<Rightarrow> theory_weighted_maxsat \<times> smt_context \<Rightarrow>
    (lbool \<times> theory_weighted_maxsat \<times> smt_context) option" where
  "example_search evs s = map_option (Pair l_false) (run insertion_sort evs (init_search_eh s))"

text \<open>The ledger is consistent with the trail: \<^verbatim>\<open>m_cost\<close> is the total weight of \<^verbatim>\<open>m_costs\<close>, the
  trail is made of the pairs that \<^verbatim>\<open>assign_eh\<close> pushes, and undoing a pair leads to a
  consistent ledger again.\<close>

fun ledger_ok :: "rat list \<Rightarrow> trail_entry list \<Rightarrow> rat \<Rightarrow> theory_var list \<Rightarrow> bool" where
  "ledger_ok ws [] cost costs = (cost = sum_weights ws costs)"
| "ledger_ok ws (Push_back_vector # Value_trail old # tr) cost costs =
     (cost = sum_weights ws costs \<and> costs \<noteq> [] \<and> ledger_ok ws tr old (butlast costs))"
| "ledger_ok ws (e # tr) cost costs = False"

text \<open>The scopes were opened between callbacks: each recorded trail length is even and
  not greater than the length recorded by the next inner scope (or the trail's).\<close>

fun scopes_ok :: "nat \<Rightarrow> nat list \<Rightarrow> bool" where
  "scopes_ok len [] = True"
| "scopes_ok len (n # ns) = (even n \<and> n \<le> len \<and> scopes_ok n ns)"

text \<open>The invariant of the cost ledger, on the plugin and the context together.\<close>

definition ledger_inv :: "theory_weighted_maxsat \<times> smt_context \<Rightarrow> bool" where
  "ledger_inv s =
     (ledger_ok (m_weights (fst s)) (trail (snd s)) (m_cost (fst s)) (m_costs (fst s)) \<and>
      scopes_ok (length (trail (snd s))) (scopes (snd s)))"

text \<open>The invariant of a search over non-negative weights: the ledger is consistent, every
  theory variable in \<^verbatim>\<open>m_costs\<close> and \<^verbatim>\<open>m_cost_save\<close> indexes \<^verbatim>\<open>m_weights\<close>, and the total
  weight of \<^verbatim>\<open>m_cost_save\<close> does not exceed \<^verbatim>\<open>m_min_cost\<close>.\<close>

definition search_inv :: "theory_weighted_maxsat \<times> smt_context \<Rightarrow> bool" where
  "search_inv s =
     (ledger_inv s \<and>
      list_all (\<lambda>w. 0 \<le> w) (m_weights (fst s)) \<and>
      list_all (\<lambda>v. v < length (m_weights (fst s))) (m_costs (fst s)) \<and>
      list_all (\<lambda>v. v < length (m_weights (fst s))) (m_cost_save (fst s)) \<and>
      sum_weights (m_weights (fst s)) (m_cost_save (fst s)) \<le> m_min_cost (fst s))"

text \<open>\<open>example_assigned\<close> after the final check: the bound is 2 and the saved set is
  \<open>[2]\<close>.\<close>

definition example_checked :: "theory_weighted_maxsat \<times> smt_context" where
  "example_checked =
     ((fst example_assigned)\<lparr>m_min_cost := 2, m_cost_save := [2]\<rparr>,
      mk_th_axiom [Literal 2 True] (snd example_assigned))"

text \<open>An atom is known to the host: it has an enode and a boolean variable, and the
  variable is marked as the plugin's.\<close>

definition internalized :: "smt_context \<Rightarrow> expr \<Rightarrow> bool" where
  "internalized ctx var =
     (var \<in> enodes ctx \<and>
      (case bool_var_of ctx var of
         None \<Rightarrow> False
       | Some bv \<Rightarrow> bv \<in> var_theory ctx \<and> bv \<in> enode_flag ctx))"


section \<open>Properties\<close>

subsection \<open>Sorting and the blocking clause\<close>

lemmas host_defs = mk_fresh_const_def assert_expr_def e_internalized_def mk_enode_def
  b_internalized_def get_bool_var_def mk_bool_var_def set_var_theory_def set_enode_flag_def mk_var_def attach_th_var_def
  push_trail_def mk_th_axiom_def push_scope_def

lemmas plugin_defs = assert_weighted_def bind_var_def init_search_eh_def sort_costs_def
  compare_cost_def weight_at_def block_def assign_eh_def final_check_eh_def
  empty_theory_def empty_context_def literal_def

lemma mset_insert_before: "mset (insert_before lt x xs) = add_mset x (mset xs)"
  by (induction xs) auto

lemma mset_insertion_sort: "mset (insertion_sort lt xs) = mset xs"
  by (induction xs) (auto simp: mset_insert_before)

lemma set_insert_before: "set (insert_before lt x xs) = insert x (set xs)"
  by (induction xs) auto

lemma sorted_insert_before:
  fixes key :: "'a \<Rightarrow> rat"
  shows "sorted_wrt (\<lambda>a b. key a \<ge> key b) xs \<Longrightarrow>
    sorted_wrt (\<lambda>a b. key a \<ge> key b) (insert_before (\<lambda>v w. key v > key w) x xs)"
  by (induction xs) (auto simp: set_insert_before)

lemma sorted_insertion_sort:
  fixes key :: "'a \<Rightarrow> rat"
  shows "sorted_wrt (\<lambda>a b. key a \<ge> key b) (insertion_sort (\<lambda>v w. key v > key w) xs)"
  by (induction xs) (auto intro: sorted_insert_before)

lemma insertion_sort_contract: "std_sort_contract insertion_sort"
  unfolding std_sort_contract_def by (simp add: mset_insertion_sort sorted_insertion_sort)

lemma contract_mset:
  "std_sort_contract srt \<Longrightarrow> mset (srt (compare_cost ws) xs) = mset xs"
proof -
  assume c: "std_sort_contract srt"
  have "compare_cost ws = (\<lambda>v w. (\<lambda>u. ws ! u) v > (\<lambda>u. ws ! u) w)"
    by (intro ext) (simp add: compare_cost_def)
  with c show ?thesis unfolding std_sort_contract_def by metis
qed

lemma contract_sorted:
  "std_sort_contract srt \<Longrightarrow> sorted_wrt (\<lambda>a b. ws ! a \<ge> ws ! b) (srt (compare_cost ws) xs)"
proof -
  assume c: "std_sort_contract srt"
  have e: "compare_cost ws = (\<lambda>v w. (\<lambda>u. ws ! u) v > (\<lambda>u. ws ! u) w)"
    by (intro ext) (simp add: compare_cost_def)
  from c have "sorted_wrt (\<lambda>a b. (\<lambda>u. ws ! u) a \<ge> (\<lambda>u. ws ! u) b)
      (srt (\<lambda>v w. (\<lambda>u. ws ! u) v > (\<lambda>u. ws ! u) w) xs)"
    unfolding std_sort_contract_def by blast
  with e show ?thesis by simp
qed

lemma contract_Nil: "std_sort_contract srt \<Longrightarrow> srt (compare_cost ws) xs = [] \<longleftrightarrow> xs = []"
  using contract_mset[of srt ws xs] by (metis mset_zero_iff)

lemma sum_weights_sum_list: "sum_weights ws vs = sum_list (map (\<lambda>v. ws ! v) vs)"
  by (induction vs) simp_all

lemma sum_weights_mset: "mset xs = mset ys \<Longrightarrow> sum_weights ws xs = sum_weights ws ys"
  unfolding sum_weights_sum_list by (metis mset_map sum_mset_sum_list)

lemma sum_weights_append:
  "sum_weights ws (vs @ us) = sum_weights ws vs + sum_weights ws us"
  by (induction vs) simp_all

lemma block_frame:
  assumes "block srt (th, ctx) = Some (r, th', ctx')"
  shows "m_cost th' = m_cost th" "m_costs th' = m_costs th" "m_weights th' = m_weights th"
    "m_vars th' = m_vars th" "m_fmls th' = m_fmls th" "m_bool2var th' = m_bool2var th"
    "m_var2bool th' = m_var2bool th" "m_var2enode th' = m_var2enode th"
    "trail ctx' = trail ctx" "scopes ctx' = scopes ctx"
  using assms
  by (auto simp: block_def mk_th_axiom_def Let_def split: option.splits if_splits prod.splits)

lemma block_loop_prefix:
  "block_loop ws v2b mc cs weight lits = Some (weight', lits') \<Longrightarrow>
   \<exists>k \<le> length cs.
     lits' = lits @ map (\<lambda>v. lnot (literal (the (v2b v)))) (take k cs) \<and>
     weight' = weight + sum_weights ws (take k cs) \<and>
     (k = length cs \<or> mc \<le> weight') \<and>
     (\<forall>j < k. weight + sum_weights ws (take j cs) < mc) \<and>
     (\<forall>v \<in> set (take k cs). v < length ws \<and> v2b v \<noteq> None)"
proof (induction cs arbitrary: weight lits)
  case Nil
  then show ?case by simp
next
  case (Cons c cs)
  show ?case
  proof (cases "weight < mc")
    case False
    with Cons.prems have "weight' = weight" "lits' = lits" by auto
    with False show ?thesis
      by (intro exI[of _ 0]) simp
  next
    case True
    with Cons.prems obtain w bv where w: "c < length ws" "w = ws ! c" and bv: "v2b c = Some bv"
      and rec: "block_loop ws v2b mc cs (weight + w) (lits @ [lnot (literal bv)]) = Some (weight', lits')"
      by (auto simp: weight_at_def split: option.splits if_splits)
    from Cons.IH[OF rec] obtain k where k: "k \<le> length cs"
      "lits' = (lits @ [lnot (literal bv)]) @ map (\<lambda>v. lnot (literal (the (v2b v)))) (take k cs)"
      "weight' = (weight + w) + sum_weights ws (take k cs)"
      "k = length cs \<or> mc \<le> weight'"
      "\<forall>j < k. (weight + w) + sum_weights ws (take j cs) < mc"
      "\<forall>v \<in> set (take k cs). v < length ws \<and> v2b v \<noteq> None"
      by blast
    have low: "\<forall>j < Suc k. weight + sum_weights ws (take j (c # cs)) < mc"
    proof (intro allI impI)
      fix j assume "j < Suc k"
      show "weight + sum_weights ws (take j (c # cs)) < mc"
      proof (cases j)
        case 0
        with True show ?thesis by simp
      next
        case (Suc j')
        with \<open>j < Suc k\<close> k(5) w show ?thesis by (simp add: add.assoc)
      qed
    qed
    show ?thesis
      using k w bv low by (intro exI[of _ "Suc k"]) (simp add: add.assoc)
  qed
qed

lemma block_loop_returns:
  "\<forall>v \<in> set cs. v < length ws \<and> v2b v \<noteq> None \<Longrightarrow>
   \<exists>res. block_loop ws v2b mc cs weight lits = Some res"
  by (induction cs arbitrary: weight lits) (auto simp: weight_at_def)

lemma block_returns:
  assumes "std_sort_contract srt"
    and "\<forall>v \<in> set (m_costs th). v < length (m_weights th) \<and> m_var2bool th v \<noteq> None"
  shows "\<exists>r th' ctx'. block srt (th, ctx) = Some (r, th', ctx')"
proof -
  let ?costs = "srt (compare_cost (m_weights th)) (m_costs th)"
  have "set ?costs = set (m_costs th)"
    using contract_mset[OF assms(1)] by (rule mset_eq_setD)
  with assms(2) have "\<forall>v \<in> set ?costs. v < length (m_weights th) \<and> m_var2bool th v \<noteq> None"
    by simp
  from block_loop_returns[OF this] obtain res where
    "block_loop (m_weights th) (m_var2bool th) (m_min_cost th) ?costs 0 [] = Some res"
    by blast
  with assms(2) show ?thesis
    by (cases res) (auto simp: block_def sort_costs_def Let_def)
qed

lemma block_result:
  assumes "block srt (th, ctx) = Some (r, th', ctx')"
  obtains k where
    "k \<le> length (srt (compare_cost (m_weights th)) (m_costs th))"
    "ctx' = mk_th_axiom (negated_literals th (take k (srt (compare_cost (m_weights th)) (m_costs th)))) ctx"
    "r = (take k (srt (compare_cost (m_weights th)) (m_costs th)) \<noteq> [])"
    "k = length (srt (compare_cost (m_weights th)) (m_costs th)) \<or>
       m_min_cost th \<le> sum_weights (m_weights th) (take k (srt (compare_cost (m_weights th)) (m_costs th)))"
    "\<forall>j < k. sum_weights (m_weights th) (take j (srt (compare_cost (m_weights th)) (m_costs th))) < m_min_cost th"
    "\<forall>v \<in> set (take k (srt (compare_cost (m_weights th)) (m_costs th))). v < length (m_weights th) \<and> m_var2bool th v \<noteq> None"
    "th' = (if m_cost th < m_min_cost th
            then th\<lparr>m_min_cost := sum_weights (m_weights th) (take k (srt (compare_cost (m_weights th)) (m_costs th))),
                    m_cost_save := m_costs th\<rparr>
            else th)"
proof -
  let ?costs = "srt (compare_cost (m_weights th)) (m_costs th)"
  from assms obtain weight lits where
    loop: "block_loop (m_weights th) (m_var2bool th) (m_min_cost th) ?costs 0 [] = Some (weight, lits)"
    and res: "r = (lits \<noteq> [])" "ctx' = mk_th_axiom lits ctx"
      "th' = (if m_cost th < m_min_cost th then th\<lparr>m_min_cost := weight, m_cost_save := m_costs th\<rparr> else th)"
    by (auto simp: block_def sort_costs_def Let_def split: option.splits if_splits prod.splits)
  from block_loop_prefix[OF loop] obtain k where k: "k \<le> length ?costs"
    "lits = map (\<lambda>v. lnot (literal (the (m_var2bool th v)))) (take k ?costs)"
    "weight = sum_weights (m_weights th) (take k ?costs)"
    "k = length ?costs \<or> m_min_cost th \<le> weight"
    "\<forall>j < k. sum_weights (m_weights th) (take j ?costs) < m_min_cost th"
    "\<forall>v \<in> set (take k ?costs). v < length (m_weights th) \<and> m_var2bool th v \<noteq> None"
    by auto
  show thesis
    by (rule that[of k]) (use k res in \<open>simp_all add: negated_literals_def\<close>)
qed

lemmas example_defs = example_start_def example_registered_def example_ties_def
  example_assigned_def


lemma block_example_assigned:
  "block insertion_sort example_assigned =
     Some (True, (fst example_assigned)\<lparr>m_min_cost := 2, m_cost_save := [2]\<rparr>,
           mk_th_axiom [Literal 2 True] (snd example_assigned))"
  by (simp add: example_defs plugin_defs host_defs Let_def)

lemma reverse_insertion_sort_contract: "std_sort_contract reverse_insertion_sort"
  unfolding std_sort_contract_def reverse_insertion_sort_def
  by (simp add: mset_insertion_sort sorted_insertion_sort)

lemma block_clause_depends:
  assumes "block srt (th, ctx) = Some (r, th', ctx')"
    and "m_costs th2 = m_costs th" "m_weights th2 = m_weights th"
    and "m_min_cost th2 = m_min_cost th" "m_var2bool th2 = m_var2bool th"
  shows "\<exists>th2' ctx2' lits. block srt (th2, ctx2) = Some (r, th2', ctx2') \<and>
     th_axioms ctx' = th_axioms ctx @ [lits] \<and> th_axioms ctx2' = th_axioms ctx2 @ [lits]"
  using assms
  by (auto simp: block_def mk_th_axiom_def Let_def split: option.splits prod.splits)

text \<open>Claim C2, as the code has it. \<^verbatim>\<open>block\<close> sorts a copy of \<^verbatim>\<open>m_costs\<close> with \<^verbatim>\<open>std::sort\<close>: the
  result \<open>costs\<close> is a permutation of \<^verbatim>\<open>m_costs\<close> with weights in non-increasing order. The
  clause negates the relaxation literals of the first \<open>k\<close> elements of \<open>costs\<close>, where \<open>k\<close> is
  the least length at which the accumulated weight reaches \<^verbatim>\<open>m_min_cost\<close>, or the whole
  length. The clause depends only on the sort, \<^verbatim>\<open>m_costs\<close>, \<^verbatim>\<open>m_weights\<close>, \<^verbatim>\<open>m_min_cost\<close> and
  \<^verbatim>\<open>m_var2bool\<close>: two calls that agree on them submit the same clause.\<close>

theorem block_greedy_prefix:
  assumes "std_sort_contract srt"
    and "block srt (th, ctx) = Some (r, th', ctx')"
  shows "\<exists>costs k.
     costs = srt (compare_cost (m_weights th)) (m_costs th) \<and>
     mset costs = mset (m_costs th) \<and>
     sorted_wrt (\<lambda>a b. m_weights th ! a \<ge> m_weights th ! b) costs \<and>
     k \<le> length costs \<and>
     (k = length costs \<or> m_min_cost th \<le> sum_weights (m_weights th) (take k costs)) \<and>
     (\<forall>j < k. sum_weights (m_weights th) (take j costs) < m_min_cost th) \<and>
     th_axioms ctx' = th_axioms ctx @ [negated_literals th (take k costs)] \<and>
     (\<forall>th2 ctx2. m_costs th2 = m_costs th \<and> m_weights th2 = m_weights th \<and>
        m_min_cost th2 = m_min_cost th \<and> m_var2bool th2 = m_var2bool th \<longrightarrow>
        (\<exists>th2' ctx2'. block srt (th2, ctx2) = Some (r, th2', ctx2') \<and>
           th_axioms ctx2' = th_axioms ctx2 @ [negated_literals th (take k costs)]))"
proof -
  let ?ws = "m_weights th"
  let ?costs = "srt (compare_cost ?ws) (m_costs th)"
  from block_result[OF assms(2)] obtain k where k:
    "k \<le> length ?costs"
    "ctx' = mk_th_axiom (negated_literals th (take k ?costs)) ctx"
    "k = length ?costs \<or> m_min_cost th \<le> sum_weights ?ws (take k ?costs)"
    "\<forall>j < k. sum_weights ?ws (take j ?costs) < m_min_cost th"
    by metis
  have ax: "th_axioms ctx' = th_axioms ctx @ [negated_literals th (take k ?costs)]"
    using k(2) by (simp add: mk_th_axiom_def)
  have det: "\<exists>th2' ctx2'. block srt (th2, ctx2) = Some (r, th2', ctx2') \<and>
           th_axioms ctx2' = th_axioms ctx2 @ [negated_literals th (take k ?costs)]"
    if "m_costs th2 = m_costs th \<and> m_weights th2 = m_weights th \<and>
        m_min_cost th2 = m_min_cost th \<and> m_var2bool th2 = m_var2bool th" for th2 ctx2
    using block_clause_depends[OF assms(2), of th2 ctx2] that ax by auto
  show ?thesis
    using contract_mset[OF assms(1)] contract_sorted[OF assms(1)] k(1,3,4) ax det
    by (intro exI[of _ ?costs] exI[of _ k]) blast
qed

lemma run_example_tied:
  "run insertion_sort
     [Push_scope, Assign 2 True, Final_check, Pop_scope 1, Assign 1 True, Assign 0 True]
     example_ties = Some example_tied"
  by (simp add: example_defs example_tied_def plugin_defs host_defs pop_scope_def Let_def)

lemma block_example_tied:
  "block insertion_sort example_tied =
     Some (True, fst example_tied, mk_th_axiom [Literal 1 True] (snd example_tied))"
  by (simp add: example_defs example_tied_def plugin_defs host_defs Let_def)

text \<open>The theorem at \<open>example_tied\<close>, with the insertion sort.\<close>

theorem block_greedy_prefix_witness:
  "std_sort_contract insertion_sort \<and>
   run insertion_sort
     [Push_scope, Assign 2 True, Final_check, Pop_scope 1, Assign 1 True, Assign 0 True]
     example_ties = Some example_tied \<and>
   (\<exists>r th' ctx' costs k.
      block insertion_sort example_tied = Some (r, th', ctx') \<and>
      costs = insertion_sort (compare_cost (m_weights (fst example_tied))) (m_costs (fst example_tied)) \<and>
      mset costs = mset (m_costs (fst example_tied)) \<and>
      k \<le> length costs \<and>
      th_axioms ctx' = th_axioms (snd example_tied) @ [negated_literals (fst example_tied) (take k costs)] \<and>
      th_axioms ctx' = [[Literal 2 True], [Literal 1 True], [Literal 1 True]])"
proof -
  have blk: "block insertion_sort (fst example_tied, snd example_tied) =
      Some (True, fst example_tied, mk_th_axiom [Literal 1 True] (snd example_tied))"
    using block_example_tied by simp
  have ax: "th_axioms (mk_th_axiom [Literal 1 True] (snd example_tied)) =
      [[Literal 2 True], [Literal 1 True], [Literal 1 True]]"
    by (simp add: example_tied_def mk_th_axiom_def)
  from block_greedy_prefix[OF insertion_sort_contract blk]
  show ?thesis
    using insertion_sort_contract run_example_tied block_example_tied ax
    by auto
qed

text \<open>Claim C2 as stated fails at \<open>example_tied\<close>, where \<^verbatim>\<open>m_costs\<close> is \<open>[1, 0]\<close>, both
  weights are 1 and the bound is 1. With a sort that keeps ties in input order the clause
  is \<open>[\<not> b1]\<close>, while ties broken by registration order give \<open>[\<not> b0]\<close>; and an admissible
  sort that is not stable submits \<open>[\<not> b0]\<close>, not the stable sort's clause.\<close>

theorem block_greedy_prefix_counterexample:
  "Option.bind
     (run insertion_sort
        [Push_scope, Assign 2 True, Final_check, Pop_scope 1, Assign 1 True, Assign 0 True]
        example_ties)
     (\<lambda>s. Option.bind (block insertion_sort s)
        (\<lambda>(r, th', ctx'). map_option
           (\<lambda>(r2, th2, ctx2). (m_weights (fst s), m_costs (fst s), m_min_cost (fst s),
              last (th_axioms ctx'), spec_emit_block_clause (fst s), last (th_axioms ctx2)))
           (block reverse_insertion_sort s)))
   = Some ([1, 1, 1], [1, 0], 1, [Literal 1 True], [Literal 0 True], [Literal 0 True])"
  by code_simp

lemma negated_literals_Nil: "negated_literals th vs = [] \<longleftrightarrow> vs = []"
  by (simp add: negated_literals_def)

lemma block_no_costs:
  assumes "std_sort_contract srt" "m_costs th = []"
  shows "block srt (th, ctx) =
     Some (False, (if m_cost th < m_min_cost th then th\<lparr>m_min_cost := 0, m_cost_save := []\<rparr> else th),
           mk_th_axiom [] ctx)"
proof -
  have "srt (compare_cost (m_weights th)) [] = []"
    using contract_Nil[OF assms(1)] by simp
  then show ?thesis
    using assms(2) by (simp add: block_def sort_costs_def Let_def)
qed

text \<open>Claim C7, as the code has it. \<^verbatim>\<open>block\<close> submits the empty clause exactly when
  \<^verbatim>\<open>m_costs\<close> is empty or \<^verbatim>\<open>m_min_cost\<close> is zero or negative; it returns \<open>True\<close> exactly when
  the clause is not empty; with an empty \<^verbatim>\<open>m_costs\<close> it returns normally, and
  \<^verbatim>\<open>final_check_eh\<close> turns an empty clause into \<^verbatim>\<open>FC_DONE\<close> and any other into
  \<^verbatim>\<open>FC_CONTINUE\<close>.\<close>

theorem block_empty_clause:
  assumes "std_sort_contract srt"
  shows "(m_costs th = [] \<longrightarrow>
            block srt (th, ctx) =
              Some (False,
                    (if m_cost th < m_min_cost th then th\<lparr>m_min_cost := 0, m_cost_save := []\<rparr> else th),
                    mk_th_axiom [] ctx)) \<and>
         (\<forall>r th' ctx'. block srt (th, ctx) = Some (r, th', ctx') \<longrightarrow>
            (\<exists>lits. th_axioms ctx' = th_axioms ctx @ [lits] \<and>
               (lits = [] \<longleftrightarrow> m_costs th = [] \<or> m_min_cost th \<le> 0) \<and>
               (r \<longleftrightarrow> lits \<noteq> []) \<and>
               final_check_eh srt (th, ctx) =
                 Some (if lits = [] then FC_DONE else FC_CONTINUE, th', ctx')))"
proof (intro conjI allI impI)
  assume "m_costs th = []"
  with assms show "block srt (th, ctx) =
      Some (False, (if m_cost th < m_min_cost th then th\<lparr>m_min_cost := 0, m_cost_save := []\<rparr> else th),
            mk_th_axiom [] ctx)"
    by (rule block_no_costs)
next
  fix r th' ctx'
  assume blk: "block srt (th, ctx) = Some (r, th', ctx')"
  let ?ws = "m_weights th"
  let ?costs = "srt (compare_cost ?ws) (m_costs th)"
  from block_result[OF blk] obtain k where k:
    "k \<le> length ?costs"
    "ctx' = mk_th_axiom (negated_literals th (take k ?costs)) ctx"
    "r = (take k ?costs \<noteq> [])"
    "k = length ?costs \<or> m_min_cost th \<le> sum_weights ?ws (take k ?costs)"
    "\<forall>j < k. sum_weights ?ws (take j ?costs) < m_min_cost th"
    by metis
  let ?lits = "negated_literals th (take k ?costs)"
  have nil: "?costs = [] \<longleftrightarrow> m_costs th = []"
    using assms by (rule contract_Nil)
  have empty_iff: "?lits = [] \<longleftrightarrow> m_costs th = [] \<or> m_min_cost th \<le> 0"
  proof
    assume "?lits = []"
    then have "k = 0 \<or> ?costs = []" by (simp add: negated_literals_Nil)
    then show "m_costs th = [] \<or> m_min_cost th \<le> 0"
      using k(4) nil by auto
  next
    assume "m_costs th = [] \<or> m_min_cost th \<le> 0"
    then show "?lits = []"
    proof
      assume "m_costs th = []"
      with nil show ?thesis by (simp add: negated_literals_Nil)
    next
      assume le: "m_min_cost th \<le> 0"
      have "k = 0"
      proof (rule ccontr)
        assume "k \<noteq> 0"
        then have "0 < k" by simp
        with k(5) have "sum_weights ?ws (take 0 ?costs) < m_min_cost th" by blast
        with le show False by simp
      qed
      then show ?thesis by (simp add: negated_literals_Nil)
    qed
  qed
  have fc: "final_check_eh srt (th, ctx) = Some (if ?lits = [] then FC_DONE else FC_CONTINUE, th', ctx')"
    using blk k(3) by (simp add: final_check_eh_def negated_literals_Nil)
  show "\<exists>lits. th_axioms ctx' = th_axioms ctx @ [lits] \<and>
               (lits = [] \<longleftrightarrow> m_costs th = [] \<or> m_min_cost th \<le> 0) \<and>
               (r \<longleftrightarrow> lits \<noteq> []) \<and>
               final_check_eh srt (th, ctx) =
                 Some (if lits = [] then FC_DONE else FC_CONTINUE, th', ctx')"
  proof (intro exI[of _ ?lits] conjI)
    show "th_axioms ctx' = th_axioms ctx @ [?lits]" using k(2) by (simp add: mk_th_axiom_def)
    show "(?lits = []) = (m_costs th = [] \<or> m_min_cost th \<le> 0)" by (rule empty_iff)
    show "r = (?lits \<noteq> [])" using k(3) by (simp add: negated_literals_Nil)
    show "final_check_eh srt (th, ctx) = Some (if ?lits = [] then FC_DONE else FC_CONTINUE, th', ctx')"
      by (rule fc)
  qed
qed

text \<open>The theorem at \<open>example_start\<close> (empty clause, \<^verbatim>\<open>FC_DONE\<close>) and at
  \<open>example_assigned\<close> (clause \<open>[\<not> b2]\<close>, \<^verbatim>\<open>FC_CONTINUE\<close>).\<close>

theorem block_empty_clause_witness:
  "std_sort_contract insertion_sort \<and>
   m_costs (fst example_start) = [] \<and>
   (\<exists>th' ctx'. block insertion_sort example_start = Some (False, th', ctx') \<and>
      th_axioms ctx' = [[]] \<and>
      final_check_eh insertion_sort example_start = Some (FC_DONE, th', ctx')) \<and>
   (\<exists>th' ctx'. block insertion_sort example_assigned = Some (True, th', ctx') \<and>
      th_axioms ctx' = [[Literal 2 True]] \<and>
      final_check_eh insertion_sort example_assigned = Some (FC_CONTINUE, th', ctx'))"
proof -
  have nocosts: "m_costs (fst example_start) = []"
    by (simp add: example_defs plugin_defs host_defs Let_def)
  have ax0: "th_axioms (snd example_start) = []" "th_axioms (snd example_assigned) = []"
    by (simp_all add: example_defs plugin_defs host_defs Let_def)
  note thm1 = block_empty_clause[OF insertion_sort_contract, of "fst example_start" "snd example_start"]
  note thm2 = block_empty_clause[OF insertion_sort_contract, of "fst example_assigned" "snd example_assigned"]
  from thm1 nocosts have b1: "block insertion_sort example_start =
      Some (False, (if m_cost (fst example_start) < m_min_cost (fst example_start)
                    then (fst example_start)\<lparr>m_min_cost := 0, m_cost_save := []\<rparr> else fst example_start),
            mk_th_axiom [] (snd example_start))"
    by simp
  from thm1 b1 have f1: "final_check_eh insertion_sort example_start =
      Some (FC_DONE, (if m_cost (fst example_start) < m_min_cost (fst example_start)
                    then (fst example_start)\<lparr>m_min_cost := 0, m_cost_save := []\<rparr> else fst example_start),
            mk_th_axiom [] (snd example_start))"
    by (simp add: final_check_eh_def)
  have b2: "block insertion_sort (fst example_assigned, snd example_assigned) =
     Some (True, (fst example_assigned)\<lparr>m_min_cost := 2, m_cost_save := [2]\<rparr>,
           mk_th_axiom [Literal 2 True] (snd example_assigned))"
    using block_example_assigned by simp
  from thm2 b2 have f2: "final_check_eh insertion_sort example_assigned =
      Some (FC_CONTINUE, (fst example_assigned)\<lparr>m_min_cost := 2, m_cost_save := [2]\<rparr>,
           mk_th_axiom [Literal 2 True] (snd example_assigned))"
    by (simp add: final_check_eh_def)
  show ?thesis
    using insertion_sort_contract nocosts b1 f1 b2 f2 ax0
    by (simp add: mk_th_axiom_def)
qed

text \<open>Claim C7 as stated fails: at \<open>example_start\<close> nothing is asserted, \<^verbatim>\<open>block\<close> submits
  the empty clause, and \<^verbatim>\<open>m_min_cost\<close> is 10, neither zero nor negative.\<close>

theorem block_empty_clause_counterexample:
  "map_option
     (\<lambda>(r, th', ctx'). (r, th_axioms ctx', m_min_cost (fst example_start),
        m_min_cost (fst example_start) \<le> 0))
     (block insertion_sort example_start)
   = Some (False, [[]], 10, False)"
  by code_simp

lemma block_axioms:
  assumes "block srt (th, ctx) = Some (r, th', ctx')"
  shows "\<exists>lits. th_axioms ctx' = th_axioms ctx @ [lits] \<and> r = (lits \<noteq> [])"
  using assms
  by (auto simp: block_def mk_th_axiom_def Let_def split: option.splits if_splits prod.splits)

text \<open>Claim C8. \<^verbatim>\<open>assign_eh\<close> with \<open>is_true = False\<close> returns the plugin and the context
  unchanged. With \<open>is_true = True\<close>, when it returns, the weight of the theory variable
  \<open>tv\<close> of the decision has been added to \<^verbatim>\<open>m_cost\<close>, \<open>tv\<close> has been appended to \<^verbatim>\<open>m_costs\<close>,
  the two trail objects have been pushed, and \<^verbatim>\<open>block\<close> has run (on the updated plugin,
  submitting one clause) if and only if the new \<^verbatim>\<open>m_cost\<close> exceeds \<^verbatim>\<open>m_min_cost\<close>. It returns
  whenever the decision is bound to a theory variable that has a weight and the call of
  \<^verbatim>\<open>block\<close>, if any, returns (see \<open>block_returns\<close>).\<close>

theorem assign_eh_effect:
  "assign_eh srt v False (th, ctx) = Some (th, ctx) \<and>
   (\<forall>th' ctx'. assign_eh srt v True (th, ctx) = Some (th', ctx') \<longrightarrow>
      (\<exists>tv. m_bool2var th v = Some tv \<and> tv < length (m_weights th) \<and>
         m_cost th' = m_cost th + m_weights th ! tv \<and>
         m_costs th' = m_costs th @ [tv] \<and>
         trail ctx' = Push_back_vector # Value_trail (m_cost th) # trail ctx \<and>
         (if m_min_cost th < m_cost th + m_weights th ! tv
          then (\<exists>r. block srt (th\<lparr>m_cost := m_cost th + m_weights th ! tv, m_costs := m_costs th @ [tv]\<rparr>,
                                push_trail Push_back_vector (push_trail (Value_trail (m_cost th)) ctx))
                       = Some (r, th', ctx')) \<and>
               length (th_axioms ctx') = Suc (length (th_axioms ctx))
          else th' = th\<lparr>m_cost := m_cost th + m_weights th ! tv, m_costs := m_costs th @ [tv]\<rparr> \<and>
               ctx' = push_trail Push_back_vector (push_trail (Value_trail (m_cost th)) ctx) \<and>
               th_axioms ctx' = th_axioms ctx))) \<and>
   (\<forall>tv. m_bool2var th v = Some tv \<and> tv < length (m_weights th) \<longrightarrow>
      assign_eh srt v True (th, ctx) =
        (if m_min_cost th < m_cost th + m_weights th ! tv
         then map_option snd
                (block srt (th\<lparr>m_cost := m_cost th + m_weights th ! tv, m_costs := m_costs th @ [tv]\<rparr>,
                            push_trail Push_back_vector (push_trail (Value_trail (m_cost th)) ctx)))
         else Some (th\<lparr>m_cost := m_cost th + m_weights th ! tv, m_costs := m_costs th @ [tv]\<rparr>,
                    push_trail Push_back_vector (push_trail (Value_trail (m_cost th)) ctx))))"
proof (intro conjI allI impI)
  show "assign_eh srt v False (th, ctx) = Some (th, ctx)"
    by (simp add: assign_eh_def)
next
  fix tv assume "m_bool2var th v = Some tv \<and> tv < length (m_weights th)"
  then show "assign_eh srt v True (th, ctx) =
        (if m_min_cost th < m_cost th + m_weights th ! tv
         then map_option snd
                (block srt (th\<lparr>m_cost := m_cost th + m_weights th ! tv, m_costs := m_costs th @ [tv]\<rparr>,
                            push_trail Push_back_vector (push_trail (Value_trail (m_cost th)) ctx)))
         else Some (th\<lparr>m_cost := m_cost th + m_weights th ! tv, m_costs := m_costs th @ [tv]\<rparr>,
                    push_trail Push_back_vector (push_trail (Value_trail (m_cost th)) ctx)))"
    by (simp add: assign_eh_def weight_at_def Let_def)
next
  fix th' ctx'
  assume a: "assign_eh srt v True (th, ctx) = Some (th', ctx')"
  then obtain tv where tv: "m_bool2var th v = Some tv" "tv < length (m_weights th)"
    by (auto simp: assign_eh_def weight_at_def split: option.splits if_splits)
  let ?th2 = "th\<lparr>m_cost := m_cost th + m_weights th ! tv, m_costs := m_costs th @ [tv]\<rparr>"
  let ?ctx2 = "push_trail Push_back_vector (push_trail (Value_trail (m_cost th)) ctx)"
  show "\<exists>tv. m_bool2var th v = Some tv \<and> tv < length (m_weights th) \<and>
         m_cost th' = m_cost th + m_weights th ! tv \<and>
         m_costs th' = m_costs th @ [tv] \<and>
         trail ctx' = Push_back_vector # Value_trail (m_cost th) # trail ctx \<and>
         (if m_min_cost th < m_cost th + m_weights th ! tv
          then (\<exists>r. block srt (th\<lparr>m_cost := m_cost th + m_weights th ! tv, m_costs := m_costs th @ [tv]\<rparr>,
                                push_trail Push_back_vector (push_trail (Value_trail (m_cost th)) ctx))
                       = Some (r, th', ctx')) \<and>
               length (th_axioms ctx') = Suc (length (th_axioms ctx))
          else th' = th\<lparr>m_cost := m_cost th + m_weights th ! tv, m_costs := m_costs th @ [tv]\<rparr> \<and>
               ctx' = push_trail Push_back_vector (push_trail (Value_trail (m_cost th)) ctx) \<and>
               th_axioms ctx' = th_axioms ctx)"
  proof (cases "m_min_cost th < m_cost th + m_weights th ! tv")
    case True
    with a tv obtain r where blk: "block srt (?th2, ?ctx2) = Some (r, th', ctx')"
      by (auto simp: assign_eh_def weight_at_def Let_def)
    have "m_cost th' = m_cost th + m_weights th ! tv" "m_costs th' = m_costs th @ [tv]"
      "trail ctx' = Push_back_vector # Value_trail (m_cost th) # trail ctx"
      using block_frame[OF blk] by (simp_all add: push_trail_def)
    moreover have "length (th_axioms ctx') = Suc (length (th_axioms ctx))"
      using block_axioms[OF blk] by (auto simp: push_trail_def)
    ultimately show ?thesis using True tv blk by simp
  next
    case False
    with a tv have "th' = ?th2" "ctx' = ?ctx2"
      by (auto simp: assign_eh_def weight_at_def Let_def)
    with False tv show ?thesis by (simp add: push_trail_def)
  qed
qed

subsection \<open>Assignment and reset\<close>

lemma run_example_tied_before:
  "run insertion_sort [Push_scope, Assign 2 True, Final_check, Pop_scope 1, Assign 1 True]
     example_ties = Some example_tied_before"
  by (simp add: example_defs example_tied_before_def plugin_defs host_defs pop_scope_def Let_def)

lemma assign_example_tied:
  "assign_eh insertion_sort 0 True example_tied_before = Some example_tied"
  by (simp add: example_defs example_tied_def example_tied_before_def plugin_defs host_defs Let_def)

lemma assign_example_assigned:
  "assign_eh insertion_sort 2 True example_start = Some example_assigned"
  by (simp add: example_defs plugin_defs host_defs Let_def)

text \<open>The theorem at \<open>example_start\<close> (decision 2: no call of \<^verbatim>\<open>block\<close>, since 2 does not
  exceed 10) and at \<open>example_tied_before\<close> (decision 0: the cost 2 exceeds the bound 1 and
  \<^verbatim>\<open>block\<close> submits a clause).\<close>

theorem assign_eh_effect_witness:
  "assign_eh insertion_sort 2 False example_start = Some example_start \<and>
   assign_eh insertion_sort 2 True example_start = Some example_assigned \<and>
   m_bool2var (fst example_start) 2 = Some 2 \<and>
   m_cost (fst example_assigned) = m_cost (fst example_start) + m_weights (fst example_start) ! 2 \<and>
   m_costs (fst example_assigned) = m_costs (fst example_start) @ [2] \<and>
   th_axioms (snd example_assigned) = th_axioms (snd example_start) \<and>
   assign_eh insertion_sort 0 True example_tied_before = Some example_tied \<and>
   m_min_cost (fst example_tied_before) <
     m_cost (fst example_tied_before) + m_weights (fst example_tied_before) ! 0 \<and>
   length (th_axioms (snd example_tied)) = Suc (length (th_axioms (snd example_tied_before)))"
proof -
  have b: "m_bool2var (fst example_start) 2 = Some 2" "m_bool2var (fst example_tied_before) 0 = Some 0"
    by (simp_all add: example_defs example_tied_before_def plugin_defs host_defs Let_def)
  have c: "\<not> m_min_cost (fst example_start) < m_cost (fst example_start) + m_weights (fst example_start) ! 2"
    "m_min_cost (fst example_tied_before) <
       m_cost (fst example_tied_before) + m_weights (fst example_tied_before) ! 0"
    by (simp_all add: example_defs example_tied_before_def plugin_defs host_defs Let_def)
  have a1: "assign_eh insertion_sort 2 True (fst example_start, snd example_start) =
      Some (fst example_assigned, snd example_assigned)"
    using assign_example_assigned by simp
  have a2: "assign_eh insertion_sort 0 True (fst example_tied_before, snd example_tied_before) =
      Some (fst example_tied, snd example_tied)"
    using assign_example_tied by simp
  note t0 = assign_eh_effect[of insertion_sort 2 "fst example_start" "snd example_start"]
  note t1 = t0[THEN conjunct2, THEN conjunct1, rule_format, OF a1]
  note t2 = assign_eh_effect[of insertion_sort 0 "fst example_tied_before" "snd example_tied_before",
      THEN conjunct2, THEN conjunct1, rule_format, OF a2]
  from t0 have f: "assign_eh insertion_sort 2 False example_start = Some example_start"
    by simp
  from t1 b(1) c(1) have r1:
    "m_cost (fst example_assigned) = m_cost (fst example_start) + m_weights (fst example_start) ! 2"
    "m_costs (fst example_assigned) = m_costs (fst example_start) @ [2]"
    "th_axioms (snd example_assigned) = th_axioms (snd example_start)"
    by auto
  from t2 b(2) c(2) have r2:
    "length (th_axioms (snd example_tied)) = Suc (length (th_axioms (snd example_tied_before)))"
    by auto
  show ?thesis
    using f assign_example_assigned b(1) r1 assign_example_tied c(2) r2 by simp
qed

text \<open>Claim C6. \<^verbatim>\<open>reset_eh\<close> clears \<^verbatim>\<open>m_vars\<close>, \<^verbatim>\<open>m_weights\<close>, \<^verbatim>\<open>m_costs\<close>, \<^verbatim>\<open>m_cost\<close>,
  \<^verbatim>\<open>m_min_cost\<close> and \<^verbatim>\<open>m_cost_save\<close>, and leaves \<^verbatim>\<open>m_fmls\<close>, \<^verbatim>\<open>m_bool2var\<close> and
  \<^verbatim>\<open>m_var2bool\<close> as they were. At \<open>example_start\<close> the three formulas and the bindings
  survive the reset, and a constraint \<open>Atom 7\<close> registered afterwards is extracted as the
  stale \<open>Atom 0\<close>.\<close>

theorem reset_eh_leaves_formulas:
  "m_vars (reset_eh th) = [] \<and> m_weights (reset_eh th) = [] \<and> m_costs (reset_eh th) = [] \<and>
   m_cost (reset_eh th) = 0 \<and> m_min_cost (reset_eh th) = 0 \<and> m_cost_save (reset_eh th) = [] \<and>
   m_fmls (reset_eh th) = m_fmls th \<and>
   m_bool2var (reset_eh th) = m_bool2var th \<and>
   m_var2bool (reset_eh th) = m_var2bool th \<and>
   m_fmls (reset_eh (fst example_start)) = [Atom 0, Atom 1, Atom 2] \<and>
   m_bool2var (reset_eh (fst example_start)) 2 = Some 2 \<and>
   m_var2bool (reset_eh (fst example_start)) 2 = Some 2 \<and>
   map_option fst (get_assignment (fst
     (assert_weighted (Atom 7) 4 (reset_eh (fst example_start), snd example_start)))) =
     Some [Atom 0]"
proof -
  have "m_fmls (reset_eh (fst example_start)) = [Atom 0, Atom 1, Atom 2] \<and>
   m_bool2var (reset_eh (fst example_start)) 2 = Some 2 \<and>
   m_var2bool (reset_eh (fst example_start)) 2 = Some 2 \<and>
   map_option fst (get_assignment (fst
     (assert_weighted (Atom 7) 4 (reset_eh (fst example_start), snd example_start)))) =
     Some [Atom 0]"
    by code_simp
  then show ?thesis by (simp add: reset_eh_def theory_reset_eh_def)
qed

subsection \<open>The cost ledger under backtracking\<close>

lemma ledger_ok_sum: "ledger_ok ws tr cost costs \<Longrightarrow> cost = sum_weights ws costs"
  by (induction ws tr cost costs rule: ledger_ok.induct) simp_all

lemma ledger_ok_even: "ledger_ok ws tr cost costs \<Longrightarrow> even (length tr)"
  by (induction ws tr cost costs rule: ledger_ok.induct) simp_all

lemma scopes_ok_mono: "scopes_ok len sc \<Longrightarrow> len \<le> len' \<Longrightarrow> scopes_ok len' sc"
  by (cases sc) auto

lemma scopes_ok_nth:
  "scopes_ok len sc \<Longrightarrow> k < length sc \<Longrightarrow>
   even (sc ! k) \<and> sc ! k \<le> len \<and> scopes_ok (sc ! k) (drop (Suc k) sc)"
proof (induction sc arbitrary: len k)
  case Nil
  then show ?case by simp
next
  case (Cons n ns)
  show ?case
  proof (cases k)
    case 0
    with Cons.prems show ?thesis by simp
  next
    case (Suc k')
    with Cons.prems have "scopes_ok n ns" "k' < length ns" "n \<le> len" by simp_all
    from Cons.IH[OF this(1,2)] \<open>n \<le> len\<close> Suc show ?thesis by simp
  qed
qed

lemma undo_trail_ledger:
  "ledger_ok ws tr (m_cost th) (m_costs th) \<Longrightarrow> even n \<Longrightarrow> n \<le> length tr \<Longrightarrow>
   \<exists>cost' k. undo_trail tr n th =
       Some (th\<lparr>m_cost := cost', m_costs := take k (m_costs th)\<rparr>, drop (length tr - n) tr) \<and>
     ledger_ok ws (drop (length tr - n) tr) cost' (take k (m_costs th))"
proof (induction ws tr "m_cost th" "m_costs th" arbitrary: th rule: ledger_ok.induct)
  case (1 ws)
  then show ?case
    by (intro exI[of _ "m_cost th"] exI[of _ "length (m_costs th)"]) simp
next
  case (2 ws old tr)
  let ?tr = "Push_back_vector # Value_trail old # tr"
  show ?case
  proof (cases "length ?tr \<le> n")
    case True
    with 2 show ?thesis
      by (intro exI[of _ "m_cost th"] exI[of _ "length (m_costs th)"]) simp
  next
    case False
    from 2(2) have ok: "m_costs th \<noteq> []" "ledger_ok ws tr old (butlast (m_costs th))" by simp_all
    have ev: "even (length tr)" using ok(2) by (rule ledger_ok_even)
    from False have "\<not> Suc (Suc (length tr)) \<le> n" by simp
    with \<open>even n\<close> ev have n: "n \<le> length tr" "\<not> Suc (length tr) \<le> n"
      by presburger+
    let ?th = "th\<lparr>m_costs := butlast (m_costs th), m_cost := old\<rparr>"
    have "old = m_cost ?th" "butlast (m_costs th) = m_costs ?th" by simp_all
    from 2(1)[OF this] ok \<open>even n\<close> n(1) obtain cost' k where
      u: "undo_trail tr n ?th =
           Some (?th\<lparr>m_cost := cost', m_costs := take k (m_costs ?th)\<rparr>, drop (length tr - n) tr)"
      and l: "ledger_ok ws (drop (length tr - n) tr) cost' (take k (m_costs ?th))"
      by auto
    have tk: "take k (butlast (m_costs th)) = take (min k (length (m_costs th) - 1)) (m_costs th)"
      by (simp add: butlast_conv_take min.commute)
    have dr: "drop (length ?tr - n) ?tr = drop (length tr - n) tr"
      using n(1) by (simp add: Suc_diff_le)
    show ?thesis
      using False n ok u l tk dr
      by (intro exI[of _ cost'] exI[of _ "min k (length (m_costs th) - 1)"]) simp
  qed
qed simp_all

lemma pop_scope_ledger:
  assumes "ledger_inv (th, ctx)" "k \<le> length (scopes ctx)"
  shows "\<exists>cost' j tr'. pop_scope k (th, ctx) =
       Some (th\<lparr>m_cost := cost', m_costs := take j (m_costs th)\<rparr>,
             ctx\<lparr>trail := tr', scopes := drop k (scopes ctx)\<rparr>) \<and>
     ledger_inv (th\<lparr>m_cost := cost', m_costs := take j (m_costs th)\<rparr>,
                 ctx\<lparr>trail := tr', scopes := drop k (scopes ctx)\<rparr>)"
proof (cases k)
  case 0
  have "th\<lparr>m_cost := m_cost th, m_costs := take (length (m_costs th)) (m_costs th)\<rparr> = th"
       "ctx\<lparr>trail := trail ctx, scopes := scopes ctx\<rparr> = ctx"
    by simp_all
  with 0 assms(1) show ?thesis
    by (intro exI[of _ "m_cost th"] exI[of _ "length (m_costs th)"] exI[of _ "trail ctx"])
       (simp add: pop_scope_def)
next
  case (Suc k')
  let ?n = "scopes ctx ! k'"
  let ?tr = "trail ctx"
  from assms Suc have lk: "k' < length (scopes ctx)" by simp
  from assms(1) have ok: "ledger_ok (m_weights th) ?tr (m_cost th) (m_costs th)"
    and sc: "scopes_ok (length ?tr) (scopes ctx)"
    by (simp_all add: ledger_inv_def)
  from scopes_ok_nth[OF sc lk] have n: "even ?n" "?n \<le> length ?tr"
    "scopes_ok ?n (drop k (scopes ctx))"
    using Suc by simp_all
  from undo_trail_ledger[OF ok n(1,2)] obtain cost' j where
    u: "undo_trail ?tr ?n th =
         Some (th\<lparr>m_cost := cost', m_costs := take j (m_costs th)\<rparr>, drop (length ?tr - ?n) ?tr)"
    and l: "ledger_ok (m_weights th) (drop (length ?tr - ?n) ?tr) cost' (take j (m_costs th))"
    by blast
  have len: "length (drop (length ?tr - ?n) ?tr) = ?n" using n(2) by simp
  show ?thesis
    using Suc assms(2) u l n(3) len
    by (intro exI[of _ cost'] exI[of _ j] exI[of _ "drop (length ?tr - ?n) ?tr"])
       (simp add: pop_scope_def ledger_inv_def)
qed

lemma block_ledger_inv:
  assumes "ledger_inv (th, ctx)" "block srt (th, ctx) = Some (r, th', ctx')"
  shows "ledger_inv (th', ctx')"
  using assms(1) block_frame[OF assms(2)] by (simp add: ledger_inv_def)

lemma assign_eh_ledger_inv:
  assumes "ledger_inv (th, ctx)" "assign_eh srt v b (th, ctx) = Some (th', ctx')"
  shows "ledger_inv (th', ctx')"
proof (cases b)
  case False
  with assms show ?thesis by (simp add: assign_eh_def)
next
  case True
  with assms(2) obtain tv where tv: "m_bool2var th v = Some tv" "tv < length (m_weights th)"
    by (auto simp: assign_eh_def weight_at_def split: option.splits if_splits)
  let ?th2 = "th\<lparr>m_cost := m_cost th + m_weights th ! tv, m_costs := m_costs th @ [tv]\<rparr>"
  let ?ctx2 = "push_trail Push_back_vector (push_trail (Value_trail (m_cost th)) ctx)"
  from assms(1) have ok: "ledger_ok (m_weights th) (trail ctx) (m_cost th) (m_costs th)"
    and sc: "scopes_ok (length (trail ctx)) (scopes ctx)"
    by (simp_all add: ledger_inv_def)
  have sum: "m_cost th = sum_weights (m_weights th) (m_costs th)"
    using ok by (rule ledger_ok_sum)
  have inv2: "ledger_inv (?th2, ?ctx2)"
    using ok sum scopes_ok_mono[OF sc, of "Suc (Suc (length (trail ctx)))"]
    by (simp add: ledger_inv_def push_trail_def sum_weights_append)
  show ?thesis
  proof (cases "m_min_cost th < m_cost th + m_weights th ! tv")
    case gt: True
    with assms(2) True tv obtain r where "block srt (?th2, ?ctx2) = Some (r, th', ctx')"
      by (auto simp: assign_eh_def weight_at_def Let_def)
    with inv2 show ?thesis by (rule block_ledger_inv)
  next
    case le: False
    with assms(2) True tv have "th' = ?th2" "ctx' = ?ctx2"
      by (auto simp: assign_eh_def weight_at_def Let_def)
    with inv2 show ?thesis by simp
  qed
qed

lemma step_ledger_inv:
  assumes "ledger_inv s" "step srt e s = Some s'"
  shows "ledger_inv s'"
proof (cases e)
  case (Assign v b)
  with assms show ?thesis
    using assign_eh_ledger_inv[of "fst s" "snd s" srt v b "fst s'" "snd s'"] by simp
next
  case Final_check
  with assms obtain r where "block srt (fst s, snd s) = Some (r, fst s', snd s')"
    by (auto simp: final_check_eh_def split: option.splits)
  with assms(1) show ?thesis
    using block_ledger_inv[of "fst s" "snd s" srt r "fst s'" "snd s'"] by simp
next
  case Push_scope
  from assms(1) have "even (length (trail (snd s)))"
    using ledger_ok_even by (auto simp: ledger_inv_def)
  with assms Push_scope show ?thesis
    by (auto simp: ledger_inv_def push_scope_def)
next
  case (Pop_scope k)
  show ?thesis
  proof (cases "k \<le> length (scopes (snd s))")
    case True
    from pop_scope_ledger[of "fst s" "snd s" k] assms(1) True obtain s'' where
      "pop_scope k s = Some s''" "ledger_inv s''" by auto
    with assms(2) Pop_scope show ?thesis by simp
  next
    case False
    with assms(2) Pop_scope show ?thesis
      by (cases s) (auto simp: pop_scope_def split: if_splits)
  qed
qed

lemma run_ledger_inv: "ledger_inv s \<Longrightarrow> run srt evs s = Some s' \<Longrightarrow> ledger_inv s'"
proof (induction evs arbitrary: s)
  case Nil
  then show ?case by simp
next
  case (Cons e evs)
  then show ?case
    by (auto split: option.splits dest: step_ledger_inv)
qed

lemma assign_eh_undo:
  assumes "assign_eh srt v True (th, ctx) = Some (th', ctx')"
  shows "trail ctx' = Push_back_vector # Value_trail (m_cost th) # trail ctx \<and>
         undo_trail (trail ctx') (length (trail ctx)) th' =
           Some (th'\<lparr>m_costs := m_costs th, m_cost := m_cost th\<rparr>, trail ctx)"
proof -
  from assms obtain tv where tv: "m_bool2var th v = Some tv" "tv < length (m_weights th)"
    by (auto simp: assign_eh_def weight_at_def split: option.splits if_splits)
  let ?th2 = "th\<lparr>m_cost := m_cost th + m_weights th ! tv, m_costs := m_costs th @ [tv]\<rparr>"
  let ?ctx2 = "push_trail Push_back_vector (push_trail (Value_trail (m_cost th)) ctx)"
  have fr: "m_costs th' = m_costs th @ [tv] \<and> trail ctx' = trail ?ctx2"
  proof (cases "m_min_cost th < m_cost th + m_weights th ! tv")
    case True
    with assms tv obtain r where "block srt (?th2, ?ctx2) = Some (r, th', ctx')"
      by (auto simp: assign_eh_def weight_at_def Let_def)
    from block_frame[OF this] show ?thesis by simp
  next
    case False
    with assms tv show ?thesis
      by (auto simp: assign_eh_def weight_at_def Let_def)
  qed
  have rest: "undo_trail (trail ctx) (length (trail ctx)) t = Some (t, trail ctx)" for t
    by (cases "trail ctx") simp_all
  from fr rest show ?thesis
    by (simp add: push_trail_def)
qed

text \<open>Claim C3, as the code has it. From a state with a consistent ledger (such as the start of a
  search, see \<open>ledger_inv_example_start\<close>), after any sequence of assignments, final checks,
  opened scopes and backtracks that the host makes, \<^verbatim>\<open>m_cost\<close> is the total weight of the theory
  variables in \<^verbatim>\<open>m_costs\<close>. Backtracking over any number of open scopes succeeds, leaves the
  two in agreement, and keeps \<^verbatim>\<open>m_min_cost\<close> and \<^verbatim>\<open>m_cost_save\<close>, which are not on the
  trail. \<^verbatim>\<open>assign_eh\<close> pushes, before it changes \<^verbatim>\<open>m_cost\<close> and \<^verbatim>\<open>m_costs\<close>, the two trail
  objects (\<^verbatim>\<open>value_trail\<close> holding the old \<^verbatim>\<open>m_cost\<close>, then \<^verbatim>\<open>push_back_vector\<close>) whose
  undoing restores both to what they were. The other writers of the ledger push nothing onto
  the trail: \<^verbatim>\<open>block\<close>, which writes \<^verbatim>\<open>m_min_cost\<close> and \<^verbatim>\<open>m_cost_save\<close> and leaves
  \<^verbatim>\<open>m_cost\<close> and \<^verbatim>\<open>m_costs\<close> alone; \<^verbatim>\<open>assert_weighted\<close>, which adds the weight to
  \<^verbatim>\<open>m_min_cost\<close>; and \<^verbatim>\<open>reset_eh\<close>, which clears the four fields and has no access to the
  trail.\<close>

theorem cost_ledger_consistent:
  assumes "ledger_inv s"
  shows "(\<forall>s'. run srt evs s = Some s' \<longrightarrow>
            ledger_inv s' \<and>
            m_cost (fst s') = sum_weights (m_weights (fst s')) (m_costs (fst s'))) \<and>
         (\<forall>k. k \<le> length (scopes (snd s)) \<longrightarrow>
            (\<exists>s'. pop_scope k s = Some s' \<and>
               m_cost (fst s') = sum_weights (m_weights (fst s')) (m_costs (fst s')) \<and>
               m_min_cost (fst s') = m_min_cost (fst s) \<and>
               m_cost_save (fst s') = m_cost_save (fst s))) \<and>
         (\<forall>v th' ctx'. assign_eh srt v True s = Some (th', ctx') \<longrightarrow>
            trail ctx' = Push_back_vector # Value_trail (m_cost (fst s)) # trail (snd s) \<and>
            undo_trail (trail ctx') (length (trail (snd s))) th' =
              Some (th'\<lparr>m_costs := m_costs (fst s), m_cost := m_cost (fst s)\<rparr>, trail (snd s))) \<and>
         (\<forall>r th' ctx'. block srt s = Some (r, th', ctx') \<longrightarrow>
            trail ctx' = trail (snd s) \<and> m_cost th' = m_cost (fst s) \<and>
            m_costs th' = m_costs (fst s)) \<and>
         (\<forall>fml w. trail (snd (assert_weighted fml w s)) = trail (snd s) \<and>
            m_min_cost (fst (assert_weighted fml w s)) = m_min_cost (fst s) + w \<and>
            m_cost (fst (assert_weighted fml w s)) = m_cost (fst s) \<and>
            m_costs (fst (assert_weighted fml w s)) = m_costs (fst s)) \<and>
         m_cost (reset_eh (fst s)) = 0 \<and> m_costs (reset_eh (fst s)) = [] \<and>
         m_min_cost (reset_eh (fst s)) = 0 \<and> m_cost_save (reset_eh (fst s)) = []"
proof (intro conjI allI impI)
  fix s' assume r: "run srt evs s = Some s'"
  from run_ledger_inv[OF assms r] show "ledger_inv s'" .
  then show "m_cost (fst s') = sum_weights (m_weights (fst s')) (m_costs (fst s'))"
    by (auto simp: ledger_inv_def dest: ledger_ok_sum)
next
  fix k assume "k \<le> length (scopes (snd s))"
  from pop_scope_ledger[of "fst s" "snd s" k] assms this obtain s' where
    "pop_scope k s = Some s'" "ledger_inv s'"
    "m_min_cost (fst s') = m_min_cost (fst s)" "m_cost_save (fst s') = m_cost_save (fst s)"
    by auto
  then show "\<exists>s'. pop_scope k s = Some s' \<and>
      m_cost (fst s') = sum_weights (m_weights (fst s')) (m_costs (fst s')) \<and>
      m_min_cost (fst s') = m_min_cost (fst s) \<and>
      m_cost_save (fst s') = m_cost_save (fst s)"
    by (auto simp: ledger_inv_def dest: ledger_ok_sum)
next
  fix v th' ctx' assume a: "assign_eh srt v True s = Some (th', ctx')"
  then have "assign_eh srt v True (fst s, snd s) = Some (th', ctx')" by simp
  note u = assign_eh_undo[OF this]
  from u show "trail ctx' = Push_back_vector # Value_trail (m_cost (fst s)) # trail (snd s)"
    by (rule conjunct1)
  from u show "undo_trail (trail ctx') (length (trail (snd s))) th' =
              Some (th'\<lparr>m_costs := m_costs (fst s), m_cost := m_cost (fst s)\<rparr>, trail (snd s))"
    by (rule conjunct2)
next
  fix r th' ctx' assume "block srt s = Some (r, th', ctx')"
  then have b: "block srt (fst s, snd s) = Some (r, th', ctx')" by simp
  from block_frame[OF b]
  show "trail ctx' = trail (snd s)" "m_cost th' = m_cost (fst s)" "m_costs th' = m_costs (fst s)"
    by simp_all
next
  fix fml w
  show "trail (snd (assert_weighted fml w s)) = trail (snd s)"
    "m_min_cost (fst (assert_weighted fml w s)) = m_min_cost (fst s) + w"
    "m_cost (fst (assert_weighted fml w s)) = m_cost (fst s)"
    "m_costs (fst (assert_weighted fml w s)) = m_costs (fst s)"
    by (simp_all add: assert_weighted_def host_defs Let_def split: prod.splits)
next
  show "m_cost (reset_eh (fst s)) = 0" "m_costs (reset_eh (fst s)) = []"
    "m_min_cost (reset_eh (fst s)) = 0" "m_cost_save (reset_eh (fst s)) = []"
    by (simp_all add: reset_eh_def theory_reset_eh_def)
qed

lemma ledger_inv_example_start: "ledger_inv example_start"
  by (simp add: ledger_inv_def example_defs plugin_defs host_defs Let_def)

lemma run_example_backtrack:
  "run insertion_sort [Push_scope, Assign 2 True, Assign 1 True, Pop_scope 1] example_start =
     Some example_start"
  by (simp add: example_defs plugin_defs host_defs pop_scope_def Let_def)

lemma ledger_inv_example_ties: "ledger_inv example_ties"
  by (simp add: ledger_inv_def example_defs plugin_defs host_defs Let_def)

text \<open>The theorem on two runs with a backtrack, on the assignment of decision 2 at
  \<open>example_start\<close>, on the call of \<^verbatim>\<open>block\<close> at \<open>example_assigned\<close>, and on the backtrack out
  of a scope in which decision 2 was assigned and checked.\<close>

theorem cost_ledger_consistent_witness:
  "ledger_inv example_ties \<and>
   run insertion_sort
     [Push_scope, Assign 2 True, Final_check, Pop_scope 1, Assign 1 True, Assign 0 True]
     example_ties = Some example_tied \<and>
   m_costs (fst example_tied) = [1, 0] \<and>
   m_cost (fst example_tied) = 2 \<and>
   m_cost (fst example_tied) =
     sum_weights (m_weights (fst example_tied)) (m_costs (fst example_tied)) \<and>
   ledger_inv example_start \<and>
   run insertion_sort [Push_scope, Assign 2 True, Assign 1 True, Pop_scope 1] example_start =
     Some example_start \<and>
   m_costs (fst example_start) = [] \<and>
   m_cost (fst example_start) = 0 \<and>
   trail (snd example_start) = [] \<and>
   m_cost (fst example_start) =
     sum_weights (m_weights (fst example_start)) (m_costs (fst example_start)) \<and>
   assign_eh insertion_sort 2 True example_start = Some example_assigned \<and>
   trail (snd example_assigned) =
     Push_back_vector # Value_trail (m_cost (fst example_start)) # trail (snd example_start) \<and>
   undo_trail (trail (snd example_assigned)) (length (trail (snd example_start)))
       (fst example_assigned) =
     Some ((fst example_assigned)\<lparr>m_costs := m_costs (fst example_start),
             m_cost := m_cost (fst example_start)\<rparr>, trail (snd example_start)) \<and>
   ledger_inv example_assigned \<and>
   block insertion_sort example_assigned =
     Some (True, (fst example_assigned)\<lparr>m_min_cost := 2, m_cost_save := [2]\<rparr>,
           mk_th_axiom [Literal 2 True] (snd example_assigned)) \<and>
   trail (mk_th_axiom [Literal 2 True] (snd example_assigned)) = trail (snd example_assigned) \<and>
   m_cost ((fst example_assigned)\<lparr>m_min_cost := 2, m_cost_save := [2]\<rparr>) =
     m_cost (fst example_assigned) \<and>
   m_costs ((fst example_assigned)\<lparr>m_min_cost := 2, m_cost_save := [2]\<rparr>) =
     m_costs (fst example_assigned) \<and>
   (\<exists>s s'. run insertion_sort [Push_scope, Assign 2 True, Final_check] example_start = Some s \<and>
      length (scopes (snd s)) = 1 \<and>
      pop_scope 1 s = Some s' \<and>
      m_cost (fst s') = sum_weights (m_weights (fst s')) (m_costs (fst s')) \<and>
      m_min_cost (fst s') = m_min_cost (fst s) \<and>
      m_cost_save (fst s') = m_cost_save (fst s) \<and>
      m_min_cost (fst s) = 2 \<and> m_cost_save (fst s) = [2])"
proof -
  note t1 = cost_ledger_consistent[OF ledger_inv_example_ties, of insertion_sort
      "[Push_scope, Assign 2 True, Final_check, Pop_scope 1, Assign 1 True, Assign 0 True]",
      THEN conjunct1, rule_format, OF run_example_tied, THEN conjunct2]
  note t2 = cost_ledger_consistent[OF ledger_inv_example_start, of insertion_sort
      "[Push_scope, Assign 2 True, Assign 1 True, Pop_scope 1]",
      THEN conjunct1, rule_format, OF run_example_backtrack, THEN conjunct2]
  have a: "assign_eh insertion_sort 2 True example_start =
      Some (fst example_assigned, snd example_assigned)"
    using assign_example_assigned by simp
  note t3 = cost_ledger_consistent[OF ledger_inv_example_start, of insertion_sort "[]",
      THEN conjunct2, THEN conjunct2, THEN conjunct1, rule_format, OF a]
  note t3a = t3[THEN conjunct1] and t3b = t3[THEN conjunct2]
  have v: "m_costs (fst example_tied) = [1, 0]" "m_cost (fst example_tied) = 2"
    "m_costs (fst example_start) = []" "m_cost (fst example_start) = 0"
    "trail (snd example_start) = []"
    by (simp_all add: example_tied_def example_defs plugin_defs host_defs Let_def)
  have li: "ledger_inv example_assigned"
    by (simp add: ledger_inv_def example_defs plugin_defs host_defs Let_def)
  note t4 = cost_ledger_consistent[OF li, of insertion_sort "[]",
      THEN conjunct2, THEN conjunct2, THEN conjunct2, THEN conjunct1, rule_format,
      OF block_example_assigned]
  note t4a = t4[THEN conjunct1] and t4b = t4[THEN conjunct2, THEN conjunct1]
    and t4c = t4[THEN conjunct2, THEN conjunct2]
  obtain s where s: "run insertion_sort [Push_scope, Assign 2 True, Final_check] example_start = Some s"
    by (simp add: example_defs plugin_defs host_defs Let_def)
  from s have sv: "length (scopes (snd s)) = 1" "m_min_cost (fst s) = 2" "m_cost_save (fst s) = [2]"
    by (auto simp add: example_defs plugin_defs host_defs Let_def)
  note ls = cost_ledger_consistent[OF ledger_inv_example_start, of insertion_sort
      "[Push_scope, Assign 2 True, Final_check]", THEN conjunct1, rule_format, OF s,
      THEN conjunct1]
  from sv(1) have k: "1 \<le> length (scopes (snd s))" by simp
  note p = cost_ledger_consistent[OF ls, of insertion_sort "[]",
      THEN conjunct2, THEN conjunct1, rule_format, OF k]
  from p s sv have ex: "\<exists>s s'.
      run insertion_sort [Push_scope, Assign 2 True, Final_check] example_start = Some s \<and>
      length (scopes (snd s)) = 1 \<and>
      pop_scope 1 s = Some s' \<and>
      m_cost (fst s') = sum_weights (m_weights (fst s')) (m_costs (fst s')) \<and>
      m_min_cost (fst s') = m_min_cost (fst s) \<and>
      m_cost_save (fst s') = m_cost_save (fst s) \<and>
      m_min_cost (fst s) = 2 \<and> m_cost_save (fst s) = [2]"
    by blast
  show ?thesis
    by (intro conjI)
       (fact ledger_inv_example_ties run_example_tied v t1 ledger_inv_example_start
          run_example_backtrack t2 assign_example_assigned t3a t3b li block_example_assigned
          t4a t4b t4c ex)+
qed

text \<open>Claim C3 as stated fails for the part of the ledger that \<^verbatim>\<open>block\<close> writes. Inside a
  scope opened at \<open>example_start\<close>, the assignment of decision 2 leaves the two trail objects
  of \<^verbatim>\<open>assign_eh\<close> on the trail, with bound 10 and an empty saved set; the final check lowers
  \<^verbatim>\<open>m_min_cost\<close> to 2 and sets \<^verbatim>\<open>m_cost_save\<close> to \<open>[2]\<close>, and the trail is still those two
  objects; after the backtrack the trail is empty, the bound is still 2 and the saved set
  \<open>[2]\<close>.\<close>

theorem cost_ledger_consistent_counterexample:
  "(map_option (\<lambda>s. (m_min_cost (fst s), m_cost_save (fst s), trail (snd s)))
      (run insertion_sort [Push_scope, Assign 2 True] example_start),
    map_option (\<lambda>s. (m_min_cost (fst s), m_cost_save (fst s), trail (snd s)))
      (run insertion_sort [Push_scope, Assign 2 True, Final_check] example_start),
    map_option (\<lambda>s. (m_min_cost (fst s), m_cost_save (fst s), trail (snd s)))
      (run insertion_sort [Push_scope, Assign 2 True, Final_check, Pop_scope 1] example_start))
   = (Some (10, [], [Push_back_vector, Value_trail 0]),
      Some (2, [2], [Push_back_vector, Value_trail 0]),
      Some (2, [2], []))"
  by code_simp

subsection \<open>The best bound\<close>

lemma sum_weights_nonneg:
  "list_all (\<lambda>w. 0 \<le> w) ws \<Longrightarrow> list_all (\<lambda>v. v < length ws) vs \<Longrightarrow> 0 \<le> sum_weights ws vs"
  by (induction vs) (auto simp: list_all_iff)

lemma sum_weights_take_le:
  assumes "list_all (\<lambda>w. 0 \<le> w) ws" "list_all (\<lambda>v. v < length ws) vs"
  shows "sum_weights ws (take k vs) \<le> sum_weights ws vs"
proof -
  have "list_all (\<lambda>v. v < length ws) (drop k vs)"
    using assms(2) by (auto simp: list_all_iff dest: in_set_dropD)
  from sum_weights_nonneg[OF assms(1) this]
  have "0 \<le> sum_weights ws (drop k vs)" .
  moreover have "sum_weights ws vs = sum_weights ws (take k vs) + sum_weights ws (drop k vs)"
    by (metis append_take_drop_id sum_weights_append)
  ultimately show ?thesis by simp
qed

lemma block_improves:
  assumes c: "std_sort_contract srt"
    and nonneg: "list_all (\<lambda>w. 0 \<le> w) (m_weights th)"
    and range: "list_all (\<lambda>v. v < length (m_weights th)) (m_costs th)"
    and sum: "m_cost th = sum_weights (m_weights th) (m_costs th)"
    and blk: "block srt (th, ctx) = Some (r, th', ctx')"
  shows "th' = (if m_cost th < m_min_cost th
                then th\<lparr>m_min_cost := m_cost th, m_cost_save := m_costs th\<rparr> else th)"
proof -
  let ?ws = "m_weights th"
  let ?costs = "srt (compare_cost ?ws) (m_costs th)"
  from block_result[OF blk] obtain k where k:
    "k = length ?costs \<or> m_min_cost th \<le> sum_weights ?ws (take k ?costs)"
    "th' = (if m_cost th < m_min_cost th
            then th\<lparr>m_min_cost := sum_weights ?ws (take k ?costs), m_cost_save := m_costs th\<rparr>
            else th)"
    by metis
  have perm: "mset ?costs = mset (m_costs th)" using c by (rule contract_mset)
  then have "set ?costs = set (m_costs th)" by (rule mset_eq_setD)
  with range have range': "list_all (\<lambda>v. v < length ?ws) ?costs" by (simp add: list_all_iff)
  have total: "sum_weights ?ws ?costs = m_cost th"
    using sum_weights_mset[OF perm, of ?ws] sum by simp
  have le: "sum_weights ?ws (take k ?costs) \<le> m_cost th"
    using sum_weights_take_le[OF nonneg range', of k] total by simp
  show ?thesis
  proof (cases "m_cost th < m_min_cost th")
    case True
    with le k(1) have "k = length ?costs" by auto
    with total have "sum_weights ?ws (take k ?costs) = m_cost th" by simp
    with True k(2) show ?thesis by simp
  next
    case False
    with k(2) show ?thesis by simp
  qed
qed

lemma block_search_inv:
  assumes "std_sort_contract srt" "search_inv (th, ctx)" "block srt (th, ctx) = Some (r, th', ctx')"
  shows "search_inv (th', ctx')" "m_min_cost th' \<le> m_min_cost th"
proof -
  from assms(2) have inv: "ledger_inv (th, ctx)"
    "list_all (\<lambda>w. 0 \<le> w) (m_weights th)"
    "list_all (\<lambda>v. v < length (m_weights th)) (m_costs th)"
    "list_all (\<lambda>v. v < length (m_weights th)) (m_cost_save th)"
    "sum_weights (m_weights th) (m_cost_save th) \<le> m_min_cost th"
    by (simp_all add: search_inv_def)
  have sum: "m_cost th = sum_weights (m_weights th) (m_costs th)"
    using inv(1) by (auto simp: ledger_inv_def dest: ledger_ok_sum)
  note th' = block_improves[OF assms(1) inv(2,3) sum assms(3)]
  have l: "ledger_inv (th', ctx')" using inv(1) assms(3) by (rule block_ledger_inv)
  show "search_inv (th', ctx')"
    using l inv th' sum by (cases "m_cost th < m_min_cost th") (simp_all add: search_inv_def)
  show "m_min_cost th' \<le> m_min_cost th"
    using th' by (cases "m_cost th < m_min_cost th") simp_all
qed

lemma assign_eh_search_inv:
  assumes "std_sort_contract srt" "search_inv (th, ctx)"
    "assign_eh srt v b (th, ctx) = Some (th', ctx')"
  shows "search_inv (th', ctx') \<and> m_min_cost th' \<le> m_min_cost th"
proof (cases b)
  case False
  with assms show ?thesis by (simp add: assign_eh_def)
next
  case True
  with assms(3) obtain tv where tv: "m_bool2var th v = Some tv" "tv < length (m_weights th)"
    by (auto simp: assign_eh_def weight_at_def split: option.splits if_splits)
  let ?th2 = "th\<lparr>m_cost := m_cost th + m_weights th ! tv, m_costs := m_costs th @ [tv]\<rparr>"
  let ?ctx2 = "push_trail Push_back_vector (push_trail (Value_trail (m_cost th)) ctx)"
  have plain: "assign_eh srt v True (th, ctx) =
      (if m_min_cost th < m_cost th + m_weights th ! tv
       then map_option snd (block srt (?th2, ?ctx2)) else Some (?th2, ?ctx2))"
    using tv by (simp add: assign_eh_def weight_at_def Let_def)
  have l2: "ledger_inv (?th2, ?ctx2)"
  proof -
    have "assign_eh srt v True (th\<lparr>m_min_cost := m_cost th + m_weights th ! tv\<rparr>, ctx) = Some (?th2\<lparr>m_min_cost := m_cost th + m_weights th ! tv\<rparr>, ?ctx2)"
      using tv by (simp add: assign_eh_def weight_at_def Let_def)
    moreover have "ledger_inv (th\<lparr>m_min_cost := m_cost th + m_weights th ! tv\<rparr>, ctx)"
      using assms(2) by (simp add: search_inv_def ledger_inv_def)
    ultimately have "ledger_inv (?th2\<lparr>m_min_cost := m_cost th + m_weights th ! tv\<rparr>, ?ctx2)"
      by (rule assign_eh_ledger_inv[rotated])
    then show ?thesis by (simp add: ledger_inv_def)
  qed
  have inv2: "search_inv (?th2, ?ctx2)"
    using assms(2) l2 tv(2) by (simp add: search_inv_def)
  show ?thesis
  proof (cases "m_min_cost th < m_cost th + m_weights th ! tv")
    case gt: True
    with assms(3) True plain obtain r where blk: "block srt (?th2, ?ctx2) = Some (r, th', ctx')"
      by auto
    from block_search_inv[OF assms(1) inv2 blk] show ?thesis by simp
  next
    case le: False
    with assms(3) True plain have "th' = ?th2" "ctx' = ?ctx2" by auto
    with inv2 show ?thesis by simp
  qed
qed

lemma step_search_inv:
  assumes "std_sort_contract srt" "search_inv s" "step srt e s = Some s'"
  shows "search_inv s' \<and> m_min_cost (fst s') \<le> m_min_cost (fst s)"
proof (cases e)
  case (Assign v b)
  with assms show ?thesis
    using assign_eh_search_inv[of srt "fst s" "snd s" v b "fst s'" "snd s'"] by simp
next
  case Final_check
  with assms obtain r where "block srt (fst s, snd s) = Some (r, fst s', snd s')"
    by (auto simp: final_check_eh_def split: option.splits)
  with assms(1,2) show ?thesis
    using block_search_inv[of srt "fst s" "snd s" r "fst s'" "snd s'"] by simp
next
  case Push_scope
  with assms(3) have s': "s' = (fst s, push_scope (snd s))" by simp
  have "ledger_inv s'"
    using assms(2,3) Push_scope step_ledger_inv[of s srt e s'] by (simp add: search_inv_def)
  with assms(2) s' show ?thesis by (simp add: search_inv_def)
next
  case (Pop_scope k)
  show ?thesis
  proof (cases "k \<le> length (scopes (snd s))")
    case True
    from assms(2) have l: "ledger_inv (fst s, snd s)" by (simp add: search_inv_def)
    from pop_scope_ledger[OF l True] assms(3) Pop_scope obtain cost' j tr' where
      s': "s' = ((fst s)\<lparr>m_cost := cost', m_costs := take j (m_costs (fst s))\<rparr>,
                (snd s)\<lparr>trail := tr', scopes := drop k (scopes (snd s))\<rparr>)"
      and l': "ledger_inv s'"
      by auto
    have "list_all (\<lambda>v. v < length (m_weights (fst s))) (take j (m_costs (fst s)))"
      using assms(2) by (auto simp: search_inv_def list_all_iff dest: in_set_takeD)
    with assms(2) l' s' show ?thesis by (simp add: search_inv_def)
  next
    case False
    with assms(3) Pop_scope show ?thesis
      by (cases s) (auto simp: pop_scope_def split: if_splits)
  qed
qed

lemma run_search_inv:
  "std_sort_contract srt \<Longrightarrow> search_inv s \<Longrightarrow> run srt evs s = Some s' \<Longrightarrow>
   search_inv s' \<and> m_min_cost (fst s') \<le> m_min_cost (fst s)"
proof (induction evs arbitrary: s)
  case Nil
  then show ?case by simp
next
  case (Cons e evs)
  from Cons.prems(3) obtain s1 where s1: "step srt e s = Some s1" "run srt evs s1 = Some s'"
    by (auto split: option.splits)
  from step_search_inv[OF Cons.prems(1,2) s1(1)]
  have i1: "search_inv s1" and m1: "m_min_cost (fst s1) \<le> m_min_cost (fst s)" by simp_all
  from Cons.IH[OF Cons.prems(1) i1 s1(2)] m1 show ?case by simp
qed

lemma bind_var_frame:
  "bind_var var s = s' \<Longrightarrow>
   m_vars (fst s') = m_vars (fst s) \<and> m_fmls (fst s') = m_fmls (fst s) \<and>
   m_weights (fst s') = m_weights (fst s) \<and> m_costs (fst s') = m_costs (fst s) \<and>
   m_cost_save (fst s') = m_cost_save (fst s) \<and> m_cost (fst s') = m_cost (fst s) \<and>
   m_min_cost (fst s') = m_min_cost (fst s) \<and> trail (snd s') = trail (snd s) \<and>
   scopes (snd s') = scopes (snd s) \<and> th_axioms (snd s') = th_axioms (snd s)"
  by (cases s) (auto simp: bind_var_def host_defs Let_def split: if_splits prod.splits)

lemma fold_bind_var_frame:
  "fold bind_var vars s = s' \<Longrightarrow>
   m_vars (fst s') = m_vars (fst s) \<and> m_fmls (fst s') = m_fmls (fst s) \<and>
   m_weights (fst s') = m_weights (fst s) \<and> m_costs (fst s') = m_costs (fst s) \<and>
   m_cost_save (fst s') = m_cost_save (fst s) \<and> m_cost (fst s') = m_cost (fst s) \<and>
   m_min_cost (fst s') = m_min_cost (fst s) \<and> trail (snd s') = trail (snd s) \<and>
   scopes (snd s') = scopes (snd s) \<and> th_axioms (snd s') = th_axioms (snd s)"
proof (induction vars arbitrary: s)
  case Nil
  then show ?case by simp
next
  case (Cons var vars)
  from Cons.prems have "fold bind_var vars (bind_var var s) = s'" by simp
  from Cons.IH[OF this] bind_var_frame[OF refl, of var s] show ?case by simp
qed

lemma init_search_eh_frame:
  "m_vars (fst (init_search_eh s)) = m_vars (fst s)"
  "m_fmls (fst (init_search_eh s)) = m_fmls (fst s)"
  "m_weights (fst (init_search_eh s)) = m_weights (fst s)"
  "m_costs (fst (init_search_eh s)) = m_costs (fst s)"
  "m_cost_save (fst (init_search_eh s)) = m_cost_save (fst s)"
  "m_cost (fst (init_search_eh s)) = m_cost (fst s)"
  "m_min_cost (fst (init_search_eh s)) = m_min_cost (fst s)"
  "trail (snd (init_search_eh s)) = trail (snd s)"
  "scopes (snd (init_search_eh s)) = scopes (snd s)"
  "th_axioms (snd (init_search_eh s)) = th_axioms (snd s)"
  using fold_bind_var_frame[OF refl, of "m_vars (fst s)" s]
  by (simp_all add: init_search_eh_def split_beta)

lemma assert_soft_frame:
  "assert_soft fs ws s = Some s' \<Longrightarrow>
   m_weights (fst s') = m_weights (fst s) @ take (length fs) ws \<and>
   m_min_cost (fst s') = m_min_cost (fst s) + sum_list (take (length fs) ws) \<and>
   m_costs (fst s') = m_costs (fst s) \<and> m_cost (fst s') = m_cost (fst s) \<and>
   m_cost_save (fst s') = m_cost_save (fst s) \<and> trail (snd s') = trail (snd s) \<and>
   scopes (snd s') = scopes (snd s)"
proof (induction fs ws s rule: assert_soft.induct)
  case (1 ws s)
  then show ?case by simp
next
  case (2 f fs s)
  then show ?case by simp
next
  case (3 f fs w ws s)
  from "3.prems" have "assert_soft fs ws (assert_weighted f w s) = Some s'" by simp
  from "3.IH"[OF this] show ?case
    by (cases s) (simp add: assert_weighted_def host_defs Let_def split: prod.splits)
qed

text \<open>The invariant holds when a search starts: after registering constraints of
  non-negative weight in a fresh solver and binding them.\<close>

lemma search_inv_start:
  assumes "assert_soft fs ws (empty_theory, empty_context) = Some s0"
    and "list_all (\<lambda>w. 0 \<le> w) ws"
  shows "search_inv (init_search_eh s0)"
proof -
  from assert_soft_frame[OF assms(1)] have s0:
    "m_weights (fst s0) = take (length fs) ws"
    "m_min_cost (fst s0) = sum_list (take (length fs) ws)"
    "m_costs (fst s0) = []" "m_cost (fst s0) = 0" "m_cost_save (fst s0) = []"
    "trail (snd s0) = []" "scopes (snd s0) = []"
    by (simp_all add: empty_theory_def empty_context_def)
  have nn: "list_all (\<lambda>w. 0 \<le> w) (take (length fs) ws)"
    using assms(2) by (auto simp: list_all_iff dest: in_set_takeD)
  then have "0 \<le> sum_list (take (length fs) ws)"
    by (intro sum_list_nonneg) (simp add: list_all_iff)
  with s0 nn show ?thesis
    by (simp add: search_inv_def ledger_inv_def init_search_eh_frame)
qed

text \<open>Claim C4. In a search over non-negative weights (\<open>search_inv\<close>, which holds at the
  start of a search and after every callback, see \<open>search_inv_start\<close> and
  \<open>run_search_inv\<close>), \<^verbatim>\<open>m_min_cost\<close> never increases over any sequence of callbacks, the
  calls of \<^verbatim>\<open>block\<close> among them. One call of \<^verbatim>\<open>block\<close> with \<^verbatim>\<open>m_cost < m_min_cost\<close> sets
  \<^verbatim>\<open>m_min_cost\<close> to the weight accumulated for the clause (which is \<^verbatim>\<open>m_cost\<close>) and
  \<^verbatim>\<open>m_cost_save\<close> to \<^verbatim>\<open>m_costs\<close>; any other call leaves both unchanged.\<close>

theorem best_bound_monotone:
  assumes "std_sort_contract srt" "search_inv s"
  shows "(\<forall>s'. run srt evs s = Some s' \<longrightarrow> m_min_cost (fst s') \<le> m_min_cost (fst s)) \<and>
         (\<forall>r th' ctx'. block srt s = Some (r, th', ctx') \<longrightarrow>
            m_min_cost th' \<le> m_min_cost (fst s) \<and>
            (if m_cost (fst s) < m_min_cost (fst s)
             then (\<exists>pre. th_axioms ctx' = th_axioms (snd s) @ [negated_literals (fst s) pre] \<and>
                     m_min_cost th' = sum_weights (m_weights (fst s)) pre) \<and>
                  m_min_cost th' = m_cost (fst s) \<and>
                  m_cost_save th' = m_costs (fst s)
             else m_min_cost th' = m_min_cost (fst s) \<and>
                  m_cost_save th' = m_cost_save (fst s)))"
proof (intro conjI allI impI)
  fix s' assume "run srt evs s = Some s'"
  from run_search_inv[OF assms this] show "m_min_cost (fst s') \<le> m_min_cost (fst s)" by simp
next
  fix r th' ctx' assume "block srt s = Some (r, th', ctx')"
  then have blk: "block srt (fst s, snd s) = Some (r, th', ctx')" by simp
  let ?th = "fst s"
  from assms(2) have inv: "search_inv (?th, snd s)"
    "list_all (\<lambda>w. 0 \<le> w) (m_weights ?th)"
    "list_all (\<lambda>v. v < length (m_weights ?th)) (m_costs ?th)"
    "m_cost ?th = sum_weights (m_weights ?th) (m_costs ?th)"
    by (auto simp: search_inv_def ledger_inv_def dest: ledger_ok_sum)
  from block_search_inv(2)[OF assms(1) inv(1) blk]
  show "m_min_cost th' \<le> m_min_cost (fst s)" .
  note imp = block_improves[OF assms(1) inv(2,3,4) blk]
  let ?costs = "srt (compare_cost (m_weights ?th)) (m_costs ?th)"
  from block_result[OF blk] obtain k where k:
    "ctx' = mk_th_axiom (negated_literals ?th (take k ?costs)) (snd s)"
    "th' = (if m_cost ?th < m_min_cost ?th
            then ?th\<lparr>m_min_cost := sum_weights (m_weights ?th) (take k ?costs),
                    m_cost_save := m_costs ?th\<rparr>
            else ?th)"
    by metis
  show "if m_cost (fst s) < m_min_cost (fst s)
        then (\<exists>pre. th_axioms ctx' = th_axioms (snd s) @ [negated_literals (fst s) pre] \<and>
                m_min_cost th' = sum_weights (m_weights (fst s)) pre) \<and>
             m_min_cost th' = m_cost (fst s) \<and>
             m_cost_save th' = m_costs (fst s)
        else m_min_cost th' = m_min_cost (fst s) \<and>
             m_cost_save th' = m_cost_save (fst s)"
  proof (cases "m_cost ?th < m_min_cost ?th")
    case True
    have "th_axioms ctx' = th_axioms (snd s) @ [negated_literals ?th (take k ?costs)] \<and>
          m_min_cost th' = sum_weights (m_weights ?th) (take k ?costs)"
      using k True by (simp add: mk_th_axiom_def)
    then have "\<exists>pre. th_axioms ctx' = th_axioms (snd s) @ [negated_literals ?th pre] \<and>
          m_min_cost th' = sum_weights (m_weights ?th) pre" by blast
    with True imp show ?thesis by simp
  next
    case False
    with imp show ?thesis by simp
  qed
qed

lemma search_inv_example_start: "search_inv example_start"
  by (simp add: search_inv_def ledger_inv_def example_defs plugin_defs host_defs Let_def)

lemma search_inv_example_assigned: "search_inv example_assigned"
  by (simp add: search_inv_def ledger_inv_def example_defs plugin_defs host_defs Let_def)

lemma run_example_checked:
  "run insertion_sort [Assign 2 True, Final_check] example_start = Some example_checked"
  by (simp add: example_checked_def example_defs plugin_defs host_defs Let_def)

text \<open>The theorem on the run that assigns decision 2 and checks: the bound goes from 10
  to 2.\<close>

theorem best_bound_monotone_witness:
  "std_sort_contract insertion_sort \<and> search_inv example_start \<and>
   run insertion_sort [Assign 2 True, Final_check] example_start = Some example_checked \<and>
   m_min_cost (fst example_checked) \<le> m_min_cost (fst example_start) \<and>
   m_min_cost (fst example_start) = 10 \<and>
   m_min_cost (fst example_checked) = 2 \<and>
   search_inv example_assigned \<and>
   m_cost (fst example_assigned) < m_min_cost (fst example_assigned) \<and>
   block insertion_sort example_assigned =
     Some (True, (fst example_assigned)\<lparr>m_min_cost := 2, m_cost_save := [2]\<rparr>,
           mk_th_axiom [Literal 2 True] (snd example_assigned)) \<and>
   m_min_cost ((fst example_assigned)\<lparr>m_min_cost := 2, m_cost_save := [2]\<rparr>) =
     m_cost (fst example_assigned) \<and>
   m_cost_save ((fst example_assigned)\<lparr>m_min_cost := 2, m_cost_save := [2]\<rparr>) =
     m_costs (fst example_assigned)"
proof -
  note t1 = best_bound_monotone[OF insertion_sort_contract search_inv_example_start,
      of "[Assign 2 True, Final_check]", THEN conjunct1, rule_format, OF run_example_checked]
  note t2 = best_bound_monotone[OF insertion_sort_contract search_inv_example_assigned,
      of "[]", THEN conjunct2, rule_format, OF block_example_assigned, THEN conjunct2]
  have v: "m_min_cost (fst example_start) = 10" "m_min_cost (fst example_checked) = 2"
    "m_cost (fst example_assigned) < m_min_cost (fst example_assigned)"
    by (simp_all add: example_checked_def example_defs plugin_defs host_defs Let_def)
  from t2 v(3) have t2':
    "m_min_cost ((fst example_assigned)\<lparr>m_min_cost := 2, m_cost_save := [2]\<rparr>) =
       m_cost (fst example_assigned)"
    "m_cost_save ((fst example_assigned)\<lparr>m_min_cost := 2, m_cost_save := [2]\<rparr>) =
       m_costs (fst example_assigned)"
    by (simp_all only: if_True)
  show ?thesis
    by (intro conjI)
       (fact insertion_sort_contract search_inv_example_start run_example_checked t1 v
          search_inv_example_assigned block_example_assigned t2')+
qed

subsection \<open>The weight of the blocking clause\<close>




subsection \<open>Extraction\<close>

lemma get_assignment_loop_complement:
  "sorted (m_cost_save th) \<Longrightarrow> distinct (m_cost_save th) \<Longrightarrow>
    length (m_vars th) \<le> length (m_fmls th) \<Longrightarrow>
    i \<le> length (m_vars th) \<Longrightarrow> j \<le> length (m_cost_save th) \<Longrightarrow>
    \<forall>x \<in> set (take j (m_cost_save th)). x < i \<Longrightarrow>
    \<forall>x \<in> set (drop j (m_cost_save th)). i \<le> x \<Longrightarrow>
    get_assignment_loop th i j result =
      Some (result @ map (\<lambda>k. m_fmls th ! k)
              (filter (\<lambda>k. k \<notin> set (m_cost_save th)) [i..<length (m_vars th)]))"
proof (induction th i j result rule: get_assignment_loop.induct)
  case (1 th i j result)
  let ?S = "m_cost_save th"
  let ?n = "length (m_vars th)"
  note srt = "1.prems"(1) and dst = "1.prems"(2) and len = "1.prems"(3)
    and low = "1.prems"(6) and high = "1.prems"(7)
  show ?case
  proof (cases "i < ?n")
    case False
    with "1.prems"(4) have "i = ?n" by simp
    then show ?thesis by (subst get_assignment_loop.simps) simp
  next
    case True
    then have upt: "[i..<?n] = i # [Suc i..<?n]" by (simp add: upt_conv_Cons)
    show ?thesis
    proof (cases "j < length ?S \<and> ?S ! j = i")
      case hit: True
      then have mem: "i \<in> set ?S" by (metis nth_mem)
      have tk: "take (Suc j) ?S = take j ?S @ [i]"
        using hit by (simp add: take_Suc_conv_app_nth)
      have dr: "drop j ?S = i # drop (Suc j) ?S"
        using hit by (metis Cons_nth_drop_Suc)
      have "sorted (drop j ?S)" "distinct (drop j ?S)"
        using srt dst by (simp_all add: sorted_wrt_drop)
      with dr have gt: "\<forall>x \<in> set (drop (Suc j) ?S). Suc i \<le> x"
        by (auto simp: Suc_le_eq order_le_less)
      have lt: "\<forall>x \<in> set (take (Suc j) ?S). x < Suc i"
        using low tk by auto
      have "get_assignment_loop th (Suc i) (Suc j) result =
          Some (result @ map (\<lambda>k. m_fmls th ! k)
                  (filter (\<lambda>k. k \<notin> set ?S) [Suc i..<?n]))"
        using True hit lt gt srt dst len
        by (intro "1.IH"(1)) simp_all
      then show ?thesis
        using True hit mem upt by (subst get_assignment_loop.simps) simp
    next
      case miss: False
      have nomem: "i \<notin> set ?S"
      proof
        assume "i \<in> set ?S"
        then have "i \<in> set (take j ?S) \<or> i \<in> set (drop j ?S)"
          by (metis append_take_drop_id set_append Un_iff)
        then show False
        proof
          assume "i \<in> set (take j ?S)"
          with low show False by auto
        next
          assume d: "i \<in> set (drop j ?S)"
          then have jl: "j < length ?S" by (cases "j < length ?S") auto
          then have dr: "drop j ?S = ?S ! j # drop (Suc j) ?S" by (metis Cons_nth_drop_Suc)
          have "sorted (drop j ?S)" using srt by (simp add: sorted_wrt_drop)
          with dr have "\<forall>x \<in> set (drop (Suc j) ?S). ?S ! j \<le> x" by simp
          moreover have "i \<le> ?S ! j" using high dr by (metis list.set_intros(1))
          moreover have "?S ! j \<noteq> i" using miss jl by simp
          ultimately show False using d dr by auto
        qed
      qed
      have fl: "i < length (m_fmls th)" using True len by simp
      have lt: "\<forall>x \<in> set (take j ?S). x < Suc i"
        using low by auto
      have gt: "\<forall>x \<in> set (drop j ?S). Suc i \<le> x"
      proof
        fix x assume x: "x \<in> set (drop j ?S)"
        with high have "i \<le> x" by simp
        moreover from x have "x \<in> set ?S" by (rule in_set_dropD)
        with nomem have "x \<noteq> i" by auto
        ultimately show "Suc i \<le> x" by simp
      qed
      have "get_assignment_loop th (Suc i) j (result @ [m_fmls th ! i]) =
          Some ((result @ [m_fmls th ! i]) @ map (\<lambda>k. m_fmls th ! k)
                  (filter (\<lambda>k. k \<notin> set ?S) [Suc i..<?n]))"
        using True miss fl lt gt srt dst len "1.prems"(5)
        by (intro "1.IH"(2)) simp_all
      then show ?thesis
        using True miss fl nomem upt by (subst get_assignment_loop.simps) auto
    qed
  qed
qed

lemma get_assignment_complement:
  assumes "distinct (m_cost_save th)" "length (m_vars th) \<le> length (m_fmls th)"
  shows "get_assignment th =
     Some (map (\<lambda>k. m_fmls th ! k)
             (filter (\<lambda>k. k \<notin> set (m_cost_save th)) [0..<length (m_vars th)]),
           th\<lparr>m_cost_save := sort (m_cost_save th)\<rparr>)"
proof -
  let ?th1 = "th\<lparr>m_cost_save := sort (m_cost_save th)\<rparr>"
  have "get_assignment_loop ?th1 0 0 [] =
      Some ([] @ map (\<lambda>k. m_fmls ?th1 ! k)
              (filter (\<lambda>k. k \<notin> set (m_cost_save ?th1)) [0..<length (m_vars ?th1)]))"
    using assms by (intro get_assignment_loop_complement) simp_all
  then show ?thesis
    by (simp add: get_assignment_def Let_def)
qed

lemma block_returns_iff:
  assumes "std_sort_contract srt" "block srt (th, ctx) = Some (r, th', ctx')"
  shows "r \<longleftrightarrow> m_costs th \<noteq> [] \<and> 0 < m_min_cost th"
proof -
  let ?ws = "m_weights th"
  let ?costs = "srt (compare_cost ?ws) (m_costs th)"
  from block_result[OF assms(2)] obtain k where k:
    "r = (take k ?costs \<noteq> [])"
    "k = length ?costs \<or> m_min_cost th \<le> sum_weights ?ws (take k ?costs)"
    "\<forall>j < k. sum_weights ?ws (take j ?costs) < m_min_cost th"
    by metis
  have nil: "?costs = [] \<longleftrightarrow> m_costs th = []"
    using assms(1) by (rule contract_Nil)
  show ?thesis
  proof (cases "k = 0")
    case True
    with k(1,2) nil show ?thesis by auto
  next
    case False
    then have "0 < k" by simp
    with k(3) have "sum_weights ?ws (take 0 ?costs) < m_min_cost th" by blast
    then have "0 < m_min_cost th" by simp
    with False k(1) nil show ?thesis by auto
  qed
qed

text \<open>When \<^verbatim>\<open>final_check_eh\<close> answers \<^verbatim>\<open>FC_DONE\<close> in a search over non-negative weights, the
  bound and the total weight of \<^verbatim>\<open>m_cost_save\<close> are both 0.\<close>

lemma final_check_done_saved_weight:
  assumes "std_sort_contract srt" "search_inv s"
    "final_check_eh srt s = Some (FC_DONE, th', ctx')"
  shows "m_min_cost th' = 0 \<and> sum_weights (m_weights th') (m_cost_save th') = 0"
proof -
  let ?th = "fst s"
  let ?ws = "m_weights ?th"
  from assms have c: "std_sort_contract srt" and inv: "search_inv (?th, snd s)" by simp_all
  from assms(3) obtain r where blk: "block srt (?th, snd s) = Some (r, th', ctx')" and r: "\<not> r"
    by (auto simp: final_check_eh_def split: option.splits if_splits)
  from inv have i: "list_all (\<lambda>w. 0 \<le> w) ?ws"
    "list_all (\<lambda>v. v < length ?ws) (m_costs ?th)"
    "list_all (\<lambda>v. v < length ?ws) (m_cost_save ?th)"
    "sum_weights ?ws (m_cost_save ?th) \<le> m_min_cost ?th"
    "m_cost ?th = sum_weights ?ws (m_costs ?th)"
    by (auto simp: search_inv_def ledger_inv_def dest: ledger_ok_sum)
  note th' = block_improves[OF c i(1,2,5) blk]
  from block_returns_iff[OF c blk] r have e: "m_costs ?th = [] \<or> m_min_cost ?th \<le> 0"
    by auto
  have n: "0 \<le> sum_weights ?ws (m_cost_save ?th)"
    using i(1,3) by (rule sum_weights_nonneg)
  show ?thesis
  proof (cases "m_cost ?th < m_min_cost ?th")
    case True
    moreover have "0 \<le> sum_weights ?ws (m_costs ?th)"
      using i(1,2) by (rule sum_weights_nonneg)
    ultimately have "m_costs ?th = []" using e i(5) by auto
    with True th' i(5) show ?thesis by simp
  next
    case False
    with e i(5) have "m_min_cost ?th \<le> 0" by auto
    with n i(4) have "m_min_cost ?th = 0" "sum_weights ?ws (m_cost_save ?th) = 0" by simp_all
    with False th' show ?thesis by simp
  qed
qed

text \<open>Claim C5. For a duplicate-free \<^verbatim>\<open>m_cost_save\<close> and one formula per registered
  constraint, \<^verbatim>\<open>get_assignment\<close> returns, in ascending order of theory-variable id, exactly
  the formulas \<^verbatim>\<open>m_fmls[i]\<close> of the constraints \<open>i\<close> that are not in \<^verbatim>\<open>m_cost_save\<close> (and
  leaves \<^verbatim>\<open>m_cost_save\<close> sorted). But the total weight of \<^verbatim>\<open>m_cost_save\<close> is not
  \<^verbatim>\<open>m_min_cost\<close> when the search had to relax every constraint. At \<open>example_start\<close>
  (weights 3, 5, 2, bound 10), after the three decisions have been assigned true, \<^verbatim>\<open>m_cost\<close> is
  10, which is not below the bound: the final check submits the clause that negates the
  three literals and answers \<^verbatim>\<open>FC_CONTINUE\<close>, \<^verbatim>\<open>m_cost_save\<close> stays empty (weight 0 against
  the bound 10), and \<^verbatim>\<open>get_assignment\<close> returns all three formulas. Through
  \<^verbatim>\<open>weighted_maxsat\<close>, with a search that makes these callbacks and reports \<^verbatim>\<open>l_false\<close>, the
  caller gets \<^verbatim>\<open>l_true\<close> and all three formulas.\<close>

theorem extract_all_relaxed:
  "(distinct (m_cost_save th) \<and> length (m_fmls th) = length (m_vars th) \<longrightarrow>
      get_assignment th =
        Some (map (\<lambda>k. m_fmls th ! k)
                (filter (\<lambda>k. k \<notin> set (m_cost_save th)) [0..<length (m_vars th)]),
              th\<lparr>m_cost_save := sort (m_cost_save th)\<rparr>)) \<and>
   Option.bind (run insertion_sort [Assign 0 True, Assign 1 True, Assign 2 True] example_start)
     (\<lambda>s. Option.bind (final_check_eh insertion_sort s)
        (\<lambda>(status, th', ctx'). map_option
           (\<lambda>(soft', th''). (m_costs th', m_cost th', status, last (th_axioms ctx'),
              m_min_cost th', m_cost_save th',
              sum_weights (m_weights th') (m_cost_save th'), soft'))
           (get_assignment th')))
   = Some ([0, 1, 2], 10, FC_CONTINUE, [Literal 1 True, Literal 0 True, Literal 2 True],
           10, [], 0, [Atom 0, Atom 1, Atom 2]) \<and>
   map_option (\<lambda>(r, soft', th', ctx'). (r, soft', m_min_cost th', m_cost_save th'))
     (weighted_maxsat
        (example_search [Assign 0 True, Assign 1 True, Assign 2 True, Final_check])
        (None, empty_context) [Atom 0, Atom 1, Atom 2] [3, 5, 2])
   = Some (l_true, [Atom 0, Atom 1, Atom 2], 10, [])"
proof (intro conjI impI)
  assume "distinct (m_cost_save th) \<and> length (m_fmls th) = length (m_vars th)"
  then show "get_assignment th =
        Some (map (\<lambda>k. m_fmls th ! k)
                (filter (\<lambda>k. k \<notin> set (m_cost_save th)) [0..<length (m_vars th)]),
              th\<lparr>m_cost_save := sort (m_cost_save th)\<rparr>)"
    by (intro get_assignment_complement) simp_all
next
  show "Option.bind (run insertion_sort [Assign 0 True, Assign 1 True, Assign 2 True] example_start)
     (\<lambda>s. Option.bind (final_check_eh insertion_sort s)
        (\<lambda>(status, th', ctx'). map_option
           (\<lambda>(soft', th''). (m_costs th', m_cost th', status, last (th_axioms ctx'),
              m_min_cost th', m_cost_save th',
              sum_weights (m_weights th') (m_cost_save th'), soft'))
           (get_assignment th')))
   = Some ([0, 1, 2], 10, FC_CONTINUE, [Literal 1 True, Literal 0 True, Literal 2 True],
           10, [], 0, [Atom 0, Atom 1, Atom 2])"
    by code_simp
next
  show "map_option (\<lambda>(r, soft', th', ctx'). (r, soft', m_min_cost th', m_cost_save th'))
     (weighted_maxsat
        (example_search [Assign 0 True, Assign 1 True, Assign 2 True, Final_check])
        (None, empty_context) [Atom 0, Atom 1, Atom 2] [3, 5, 2])
   = Some (l_true, [Atom 0, Atom 1, Atom 2], 10, [])"
    by code_simp
qed

text \<open>The theorem at \<open>example_checked\<close>: constraint 2 is in the saved set, the formulas 0
  and 1 are extracted.\<close>

theorem extract_all_relaxed_witness:
  "distinct (m_cost_save (fst example_checked)) \<and>
   length (m_fmls (fst example_checked)) = length (m_vars (fst example_checked)) \<and>
   m_cost_save (fst example_checked) = [2] \<and>
   get_assignment (fst example_checked) =
     Some ([Atom 0, Atom 1], (fst example_checked)\<lparr>m_cost_save := [2]\<rparr>)"
proof -
  have v: "distinct (m_cost_save (fst example_checked))"
    "length (m_fmls (fst example_checked)) = length (m_vars (fst example_checked))"
    "m_cost_save (fst example_checked) = [2]"
    by (simp_all add: example_checked_def example_defs plugin_defs host_defs Let_def)
  have e: "map (\<lambda>k. m_fmls (fst example_checked) ! k)
            (filter (\<lambda>k. k \<notin> set (m_cost_save (fst example_checked)))
               [0..<length (m_vars (fst example_checked))]) = [Atom 0, Atom 1]"
    by code_simp
  note g0 = extract_all_relaxed[of "fst example_checked", THEN conjunct1, rule_format,
      OF conjI[OF v(1,2)]]
  have g: "get_assignment (fst example_checked) =
     Some ([Atom 0, Atom 1], (fst example_checked)\<lparr>m_cost_save := [2]\<rparr>)"
    using g0[unfolded e] by (simp add: v(3))
  show ?thesis
    by (intro conjI) (fact v g)+
qed

subsection \<open>The entry point\<close>

text \<open>The loop of \<^verbatim>\<open>weighted_maxsat\<close> that registers the constraints appends the formulas
  to \<^verbatim>\<open>m_fmls\<close>, one relaxation variable each.\<close>

lemma assert_soft_registers:
  "assert_soft fs ws s = Some s' \<Longrightarrow>
   m_fmls (fst s') = m_fmls (fst s) @ fs \<and>
   length (m_vars (fst s')) = length (m_vars (fst s)) + length fs \<and>
   length fs \<le> length ws"
proof (induction fs ws s rule: assert_soft.induct)
  case (1 ws s)
  then show ?case by simp
next
  case (2 f fs s)
  then show ?case by simp
next
  case (3 f fs w ws s)
  from "3.prems" have "assert_soft fs ws (assert_weighted f w s) = Some s'" by simp
  from "3.IH"[OF this] show ?case
    by (cases s) (simp add: assert_weighted_def host_defs Let_def split: prod.splits)
qed

text \<open>Claim C10. When \<^verbatim>\<open>weighted_maxsat\<close> returns, the formulas passed in have been appended to
  \<^verbatim>\<open>m_fmls\<close>, and \<^verbatim>\<open>soft_constraints\<close> holds what \<^verbatim>\<open>get_assignment\<close> extracted after the
  search: for a duplicate-free \<^verbatim>\<open>m_cost_save\<close> and one formula per registered constraint,
  the formulas \<^verbatim>\<open>m_fmls[k]\<close> of the constraints \<open>k\<close> that are not in \<^verbatim>\<open>m_cost_save\<close>, in
  ascending order of \<open>k\<close>. With a fresh plugin and a search that leaves \<^verbatim>\<open>m_fmls\<close> and
  \<^verbatim>\<open>m_vars\<close> alone, these are the formulas \<^verbatim>\<open>soft_constraints[k]\<close> passed in, for \<open>k\<close>
  not in \<^verbatim>\<open>m_cost_save\<close>. A search result \<^verbatim>\<open>l_false\<close> with a non-empty extracted list is
  returned as \<^verbatim>\<open>l_true\<close>, and \<^verbatim>\<open>l_false\<close> is returned exactly when the search said
  \<^verbatim>\<open>l_false\<close> and the extracted list is empty.\<close>

theorem weighted_maxsat_status:
  assumes "weighted_maxsat check_sat_core s soft_constraints weights = Some (result, soft', th', ctx')"
  shows "\<exists>s1 res th2.
     assert_soft soft_constraints weights
       (case fst s of None \<Rightarrow> empty_theory | Some th \<Rightarrow> th, snd s) = Some s1 \<and>
     m_fmls (fst s1) =
       m_fmls (case fst s of None \<Rightarrow> empty_theory | Some th \<Rightarrow> th) @ soft_constraints \<and>
     check_sat_core s1 = Some (res, th2, ctx') \<and>
     get_assignment th2 = Some (soft', th') \<and>
     (distinct (m_cost_save th2) \<and> length (m_fmls th2) = length (m_vars th2) \<longrightarrow>
        soft' = map (\<lambda>k. m_fmls th2 ! k)
                  (filter (\<lambda>k. k \<notin> set (m_cost_save th2)) [0..<length (m_vars th2)]) \<and>
        th' = th2\<lparr>m_cost_save := sort (m_cost_save th2)\<rparr>) \<and>
     (fst s = None \<and> distinct (m_cost_save th2) \<and>
      m_fmls th2 = m_fmls (fst s1) \<and> m_vars th2 = m_vars (fst s1) \<longrightarrow>
        soft' = map (\<lambda>k. soft_constraints ! k)
                  (filter (\<lambda>k. k \<notin> set (m_cost_save th2)) [0..<length soft_constraints])) \<and>
     result = (if soft' \<noteq> [] \<and> res = l_false then l_true else res) \<and>
     (res = l_false \<and> soft' \<noteq> [] \<longrightarrow> result = l_true) \<and>
     (result = l_false \<longleftrightarrow> res = l_false \<and> soft' = [])"
proof -
  let ?wth = "case fst s of None \<Rightarrow> empty_theory | Some th \<Rightarrow> th"
  from assms obtain s1 res th2 where
    a: "assert_soft soft_constraints weights (?wth, snd s) = Some s1"
    and c: "check_sat_core s1 = Some (res, th2, ctx')"
    and g: "get_assignment th2 = Some (soft', th')"
    and r: "result = (if soft' \<noteq> [] \<and> res = l_false then l_true else res)"
    by (auto simp: weighted_maxsat_def Let_def split: option.splits prod.splits)
  from assert_soft_registers[OF a] have reg:
    "m_fmls (fst s1) = m_fmls ?wth @ soft_constraints"
    "length (m_vars (fst s1)) = length (m_vars ?wth) + length soft_constraints"
    by simp_all
  have compl: "soft' = map (\<lambda>k. m_fmls th2 ! k)
                  (filter (\<lambda>k. k \<notin> set (m_cost_save th2)) [0..<length (m_vars th2)]) \<and>
        th' = th2\<lparr>m_cost_save := sort (m_cost_save th2)\<rparr>"
    if "distinct (m_cost_save th2) \<and> length (m_fmls th2) = length (m_vars th2)"
    using get_assignment_complement[of th2] that g by simp
  have fresh: "soft' = map (\<lambda>k. soft_constraints ! k)
                  (filter (\<lambda>k. k \<notin> set (m_cost_save th2)) [0..<length soft_constraints])"
    if h: "fst s = None \<and> distinct (m_cost_save th2) \<and>
      m_fmls th2 = m_fmls (fst s1) \<and> m_vars th2 = m_vars (fst s1)"
  proof -
    from h reg have f: "m_fmls th2 = soft_constraints"
      "length (m_vars th2) = length soft_constraints"
      by (simp_all add: empty_theory_def)
    with h compl show ?thesis by simp
  qed
  show ?thesis
    using a reg(1) c g compl fresh r
    by (intro exI[of _ s1] exI[of _ res] exI[of _ th2]) auto
qed

lemma example_search_eval:
  "map_option (\<lambda>(r, soft', th', ctx'). (r, soft', m_cost_save th', m_min_cost th'))
     (weighted_maxsat (example_search [Assign 1 True, Final_check]) (None, empty_context)
        [Atom 0, Atom 1] [3, 5]) =
   Some (l_true, [Atom 0], [1], 5)"
  by code_simp

text \<open>The theorem with two constraints, of which the search relaxes constraint 1 before
  reporting \<^verbatim>\<open>l_false\<close> (the saved set is \<open>[1]\<close>, \<open>Atom 0\<close> alone comes back and the
  status becomes \<^verbatim>\<open>l_true\<close>), and with no constraint at all (\<^verbatim>\<open>l_false\<close> is returned).\<close>

theorem weighted_maxsat_status_witness:
  "(\<exists>th' ctx'. weighted_maxsat (example_search [Assign 1 True, Final_check])
        (None, empty_context) [Atom 0, Atom 1] [3, 5] =
      Some (l_true, [Atom 0], th', ctx') \<and> m_cost_save th' = [1]) \<and>
   (\<exists>s1 th2 ctx'. assert_soft [Atom 0, Atom 1] [3, 5] (empty_theory, empty_context) = Some s1 \<and>
      m_fmls (fst s1) = [Atom 0, Atom 1] \<and>
      example_search [Assign 1 True, Final_check] s1 = Some (l_false, th2, ctx') \<and>
      m_cost_save th2 = [1] \<and>
      distinct (m_cost_save th2) \<and>
      length (m_fmls th2) = length (m_vars th2) \<and>
      m_fmls th2 = m_fmls (fst s1) \<and> m_vars th2 = m_vars (fst s1) \<and>
      map_option fst (get_assignment th2) = Some [Atom 0] \<and>
      [Atom 0] = map (\<lambda>k. m_fmls th2 ! k)
                   (filter (\<lambda>k. k \<notin> set (m_cost_save th2)) [0..<length (m_vars th2)]) \<and>
      [Atom 0] = map (\<lambda>k. [Atom 0, Atom 1] ! k)
                   (filter (\<lambda>k. k \<notin> set (m_cost_save th2)) [0..<length [Atom 0, Atom 1]])) \<and>
   (\<exists>th' ctx'. weighted_maxsat (example_search []) (None, empty_context) [] [] =
      Some (l_false, [], th', ctx'))"
proof -
  have e1: "\<exists>th' ctx'. weighted_maxsat (example_search [Assign 1 True, Final_check])
        (None, empty_context) [Atom 0, Atom 1] [3, 5] =
      Some (l_true, [Atom 0], th', ctx') \<and> m_cost_save th' = [1]"
    using example_search_eval by (auto split: prod.splits)
  then obtain th' ctx' where w: "weighted_maxsat (example_search [Assign 1 True, Final_check])
        (None, empty_context) [Atom 0, Atom 1] [3, 5] = Some (l_true, [Atom 0], th', ctx')"
    and sv: "m_cost_save th' = [1]" by blast
  from weighted_maxsat_status[OF w] obtain s1 res th2 where
    t1: "assert_soft [Atom 0, Atom 1] [3, 5]
       (case fst (None :: theory_weighted_maxsat option, empty_context) of
          None \<Rightarrow> empty_theory | Some th \<Rightarrow> th,
        snd (None :: theory_weighted_maxsat option, empty_context)) = Some s1"
    and t2: "m_fmls (fst s1) =
       m_fmls (case fst (None :: theory_weighted_maxsat option, empty_context) of
                 None \<Rightarrow> empty_theory | Some th \<Rightarrow> th) @ [Atom 0, Atom 1]"
    and t3: "example_search [Assign 1 True, Final_check] s1 = Some (res, th2, ctx')"
    and t4: "get_assignment th2 = Some ([Atom 0], th')"
    and t5: "distinct (m_cost_save th2) \<and> length (m_fmls th2) = length (m_vars th2) \<longrightarrow>
        [Atom 0] = map (\<lambda>k. m_fmls th2 ! k)
                  (filter (\<lambda>k. k \<notin> set (m_cost_save th2)) [0..<length (m_vars th2)]) \<and>
        th' = th2\<lparr>m_cost_save := sort (m_cost_save th2)\<rparr>"
    and t6: "fst (None :: theory_weighted_maxsat option, empty_context) = None \<and>
      distinct (m_cost_save th2) \<and>
      m_fmls th2 = m_fmls (fst s1) \<and> m_vars th2 = m_vars (fst s1) \<longrightarrow>
        [Atom 0] = map (\<lambda>k. [Atom 0, Atom 1] ! k)
                  (filter (\<lambda>k. k \<notin> set (m_cost_save th2)) [0..<length [Atom 0, Atom 1]])"
    by (elim exE conjE) (rule that, assumption+)
  have t: "assert_soft [Atom 0, Atom 1] [3, 5] (empty_theory, empty_context) = Some s1"
    "m_fmls (fst s1) = [Atom 0, Atom 1]"
    "example_search [Assign 1 True, Final_check] s1 = Some (res, th2, ctx')"
    "get_assignment th2 = Some ([Atom 0], th')"
    using t1 t2 t3 t4 by (simp_all add: empty_theory_def)
  from t(3) have res: "res = l_false" by (auto simp: example_search_def)
  from t(1) t(3) have fr: "distinct (m_cost_save th2)"
    "length (m_fmls th2) = length (m_vars th2)"
    "m_fmls th2 = m_fmls (fst s1)" "m_vars th2 = m_vars (fst s1)"
    "m_cost_save th2 = [1]"
    by (auto simp add: example_search_def empty_theory_def empty_context_def plugin_defs
        host_defs Let_def)
  from t5 fr(1,2) have c1: "[Atom 0] = map (\<lambda>k. m_fmls th2 ! k)
                  (filter (\<lambda>k. k \<notin> set (m_cost_save th2)) [0..<length (m_vars th2)])"
    by blast
  from t6 fr(1,3,4) have c2: "[Atom 0] = map (\<lambda>k. [Atom 0, Atom 1] ! k)
                  (filter (\<lambda>k. k \<notin> set (m_cost_save th2)) [0..<length [Atom 0, Atom 1]])"
    by simp
  from t(4) have g: "map_option fst (get_assignment th2) = Some [Atom 0]" by simp
  have e2: "\<exists>s1 th2 ctx'. assert_soft [Atom 0, Atom 1] [3, 5] (empty_theory, empty_context) = Some s1 \<and>
      m_fmls (fst s1) = [Atom 0, Atom 1] \<and>
      example_search [Assign 1 True, Final_check] s1 = Some (l_false, th2, ctx') \<and>
      m_cost_save th2 = [1] \<and>
      distinct (m_cost_save th2) \<and>
      length (m_fmls th2) = length (m_vars th2) \<and>
      m_fmls th2 = m_fmls (fst s1) \<and> m_vars th2 = m_vars (fst s1) \<and>
      map_option fst (get_assignment th2) = Some [Atom 0] \<and>
      [Atom 0] = map (\<lambda>k. m_fmls th2 ! k)
                   (filter (\<lambda>k. k \<notin> set (m_cost_save th2)) [0..<length (m_vars th2)]) \<and>
      [Atom 0] = map (\<lambda>k. [Atom 0, Atom 1] ! k)
                   (filter (\<lambda>k. k \<notin> set (m_cost_save th2)) [0..<length [Atom 0, Atom 1]])"
    by (intro exI[of _ s1] exI[of _ th2] exI[of _ ctx'] conjI)
       (fact t(1,2) t(3)[unfolded res] fr g c1 c2)+
  have e3: "\<exists>th' ctx'. weighted_maxsat (example_search []) (None, empty_context) [] [] =
      Some (l_false, [], th', ctx')"
    by (simp add: weighted_maxsat_def example_search_def plugin_defs host_defs
        get_assignment_def get_assignment_loop.simps Let_def)
  from e1 e2 e3 show ?thesis by blast
qed

subsection \<open>Binding\<close>

lemma bind_var_Some:
  assumes "bool_var_of ctx var = Some bv"
  shows "bind_var var (th, ctx) =
     (th\<lparr>m_var2enode := m_var2enode th @ [var],
         m_bool2var := (m_bool2var th)(bv \<mapsto> length (m_var2enode th)),
         m_var2bool := (m_var2bool th)(length (m_var2enode th) \<mapsto> bv)\<rparr>,
      ctx\<lparr>enodes := insert var (enodes ctx),
          var_theory := insert bv (var_theory ctx),
          enode_flag := insert bv (enode_flag ctx),
          th_var := (th_var ctx)(var \<mapsto> length (m_var2enode th))\<rparr>)"
  using assms by (auto simp: bind_var_def host_defs Let_def insert_absorb)

lemma bind_var_None:
  assumes "bool_var_of ctx var = None"
  shows "bind_var var (th, ctx) =
     (th\<lparr>m_var2enode := m_var2enode th @ [var],
         m_bool2var := (m_bool2var th)(num_bool_vars ctx \<mapsto> length (m_var2enode th)),
         m_var2bool := (m_var2bool th)(length (m_var2enode th) \<mapsto> num_bool_vars ctx)\<rparr>,
      ctx\<lparr>enodes := insert var (enodes ctx),
          bool_var_of := (bool_var_of ctx)(var \<mapsto> num_bool_vars ctx),
          num_bool_vars := Suc (num_bool_vars ctx),
          var_theory := insert (num_bool_vars ctx) (var_theory ctx),
          enode_flag := insert (num_bool_vars ctx) (enode_flag ctx),
          th_var := (th_var ctx)(var \<mapsto> length (m_var2enode th))\<rparr>)"
  using assms by (auto simp: bind_var_def host_defs Let_def insert_absorb)

lemma bind_var_effect:
  "\<exists>bv. bool_var_of (snd (bind_var var s)) var = Some bv \<and>
     internalized (snd (bind_var var s)) var \<and>
     m_var2enode (fst (bind_var var s)) = m_var2enode (fst s) @ [var] \<and>
     m_bool2var (fst (bind_var var s)) = (m_bool2var (fst s))(bv \<mapsto> length (m_var2enode (fst s))) \<and>
     m_var2bool (fst (bind_var var s)) = (m_var2bool (fst s))(length (m_var2enode (fst s)) \<mapsto> bv)"
proof (cases "bool_var_of (snd s) var")
  case None
  from bind_var_None[OF this, of "fst s"] show ?thesis
    by (simp add: internalized_def)
next
  case (Some bv)
  from bind_var_Some[OF this, of "fst s"] Some show ?thesis
    by (simp add: internalized_def)
qed

lemma bind_var_keeps:
  "internalized (snd s) x \<Longrightarrow>
   internalized (snd (bind_var var s)) x \<and>
   bool_var_of (snd (bind_var var s)) x = bool_var_of (snd s) x"
proof (cases "bool_var_of (snd s) var")
  case None
  assume "internalized (snd s) x"
  with None bind_var_None[OF None, of "fst s"] show ?thesis
    by (auto simp: internalized_def split: option.splits)
next
  case (Some bv)
  assume "internalized (snd s) x"
  with bind_var_Some[OF Some, of "fst s"] show ?thesis
    by (auto simp: internalized_def split: option.splits)
qed

lemma bind_var_host_idem:
  assumes "internalized (snd s) var"
  shows "enodes (snd (bind_var var s)) = enodes (snd s) \<and>
         bool_var_of (snd (bind_var var s)) = bool_var_of (snd s) \<and>
         num_bool_vars (snd (bind_var var s)) = num_bool_vars (snd s) \<and>
         var_theory (snd (bind_var var s)) = var_theory (snd s) \<and>
         enode_flag (snd (bind_var var s)) = enode_flag (snd s)"
proof -
  from assms obtain bv where bv: "bool_var_of (snd s) var = Some bv"
    "var \<in> enodes (snd s)" "bv \<in> var_theory (snd s)" "bv \<in> enode_flag (snd s)"
    by (auto simp: internalized_def split: option.splits)
  from bind_var_Some[OF bv(1), of "fst s"] bv(2,3,4) show ?thesis
    by (simp add: insert_absorb)
qed

lemma fold_bind_var_enodes:
  "m_var2enode (fst (fold bind_var vars s)) = m_var2enode (fst s) @ vars"
proof (induction vars arbitrary: s)
  case Nil
  show ?case by simp
next
  case (Cons var vars)
  from bind_var_effect[of var s] Cons.IH[of "bind_var var s"] show ?case by auto
qed

lemma fold_bind_var_keeps:
  "internalized (snd s) x \<Longrightarrow>
   internalized (snd (fold bind_var vars s)) x \<and>
   bool_var_of (snd (fold bind_var vars s)) x = bool_var_of (snd s) x"
proof (induction vars arbitrary: s)
  case Nil
  then show ?case by simp
next
  case (Cons var vars)
  from bind_var_keeps[OF Cons.prems, of var] Cons.IH[of "bind_var var s"]
  show ?case by simp
qed

lemma fold_bind_var_var2bool:
  "k < length (m_var2enode (fst s)) \<Longrightarrow>
   m_var2bool (fst (fold bind_var vars s)) k = m_var2bool (fst s) k"
proof (induction vars arbitrary: s)
  case Nil
  show ?case by simp
next
  case (Cons var vars)
  from bind_var_effect[of var s] obtain bv where e:
    "m_var2enode (fst (bind_var var s)) = m_var2enode (fst s) @ [var]"
    "m_var2bool (fst (bind_var var s)) = (m_var2bool (fst s))(length (m_var2enode (fst s)) \<mapsto> bv)"
    by blast
  from Cons.prems e(1) have "k < length (m_var2enode (fst (bind_var var s)))" by simp
  from Cons.IH[OF this] e(2) Cons.prems show ?case by simp
qed

lemma fold_bind_var_internalizes:
  "i < length vars \<Longrightarrow>
   internalized (snd (fold bind_var vars s)) (vars ! i) \<and>
   (\<exists>bv. bool_var_of (snd (fold bind_var vars s)) (vars ! i) = Some bv \<and>
      m_var2bool (fst (fold bind_var vars s)) (length (m_var2enode (fst s)) + i) = Some bv)"
proof (induction vars arbitrary: s i)
  case Nil
  then show ?case by simp
next
  case (Cons var vars)
  let ?s1 = "bind_var var s"
  from bind_var_effect[of var s] obtain bv where e:
    "bool_var_of (snd ?s1) var = Some bv" "internalized (snd ?s1) var"
    "m_var2enode (fst ?s1) = m_var2enode (fst s) @ [var]"
    "m_var2bool (fst ?s1) = (m_var2bool (fst s))(length (m_var2enode (fst s)) \<mapsto> bv)"
    by blast
  show ?case
  proof (cases i)
    case 0
    have "length (m_var2enode (fst s)) < length (m_var2enode (fst ?s1))" using e(3) by simp
    from fold_bind_var_var2bool[OF this, of vars] e(4)
    have "m_var2bool (fst (fold bind_var vars ?s1)) (length (m_var2enode (fst s))) = Some bv"
      by simp
    with fold_bind_var_keeps[OF e(2), of vars] e(1) 0 show ?thesis by simp
  next
    case (Suc i')
    with Cons.prems have "i' < length vars" by simp
    from Cons.IH[OF this, of ?s1] e(3) Suc show ?thesis by simp
  qed
qed

lemma fold_bind_var_host_idem:
  "\<forall>x \<in> set vars. internalized (snd s) x \<Longrightarrow>
   enodes (snd (fold bind_var vars s)) = enodes (snd s) \<and>
   bool_var_of (snd (fold bind_var vars s)) = bool_var_of (snd s) \<and>
   num_bool_vars (snd (fold bind_var vars s)) = num_bool_vars (snd s) \<and>
   var_theory (snd (fold bind_var vars s)) = var_theory (snd s) \<and>
   enode_flag (snd (fold bind_var vars s)) = enode_flag (snd s)"
proof (induction vars arbitrary: s)
  case Nil
  show ?case by simp
next
  case (Cons var vars)
  from Cons.prems have v: "internalized (snd s) var" by simp
  have "\<forall>x \<in> set vars. internalized (snd (bind_var var s)) x"
    using Cons.prems bind_var_keeps[of s _ var] by simp
  from Cons.IH[OF this] bind_var_host_idem[OF v] show ?case by simp
qed

lemma fold_bind_var_last:
  "\<exists>bv. bool_var_of (snd (fold bind_var (xs @ [x]) s)) x = Some bv \<and>
     m_bool2var (fst (fold bind_var (xs @ [x]) s)) bv =
       Some (length (m_var2enode (fst s)) + length xs)"
proof -
  let ?sa = "fold bind_var xs s"
  from bind_var_effect[of x ?sa] fold_bind_var_enodes[of xs s] show ?thesis by auto
qed

text \<open>Every call of \<^verbatim>\<open>init_search_eh\<close> visits every registered
  constraint, bound or not: the enode and the boolean variable of its atom are created
  only if absent, so that a second call leaves the host's enodes, boolean variables and
  marks as the first call left them; but each call makes a new theory variable for every
  constraint and binds the constraint's boolean variable to it. After two calls the list
  of theory variables holds every atom twice, and with at least one constraint registered
  \<^verbatim>\<open>m_bool2var\<close> differs from what it was after one call.\<close>

lemma init_search_eh_rebinds:
  "m_var2enode (fst (init_search_eh s)) = m_var2enode (fst s) @ m_vars (fst s) \<and>
   m_var2enode (fst (init_search_eh (init_search_eh s))) =
     m_var2enode (fst s) @ m_vars (fst s) @ m_vars (fst s) \<and>
   (\<forall>i < length (m_vars (fst s)).
      internalized (snd (init_search_eh s)) (m_vars (fst s) ! i) \<and>
      (\<exists>bv. bool_var_of (snd (init_search_eh s)) (m_vars (fst s) ! i) = Some bv \<and>
         m_var2bool (fst (init_search_eh s)) (length (m_var2enode (fst s)) + i) = Some bv \<and>
         m_var2bool (fst (init_search_eh (init_search_eh s)))
           (length (m_var2enode (fst s)) + length (m_vars (fst s)) + i) = Some bv)) \<and>
   enodes (snd (init_search_eh (init_search_eh s))) = enodes (snd (init_search_eh s)) \<and>
   bool_var_of (snd (init_search_eh (init_search_eh s))) = bool_var_of (snd (init_search_eh s)) \<and>
   num_bool_vars (snd (init_search_eh (init_search_eh s))) = num_bool_vars (snd (init_search_eh s)) \<and>
   var_theory (snd (init_search_eh (init_search_eh s))) = var_theory (snd (init_search_eh s)) \<and>
   enode_flag (snd (init_search_eh (init_search_eh s))) = enode_flag (snd (init_search_eh s)) \<and>
   (m_vars (fst s) \<noteq> [] \<longrightarrow>
      m_bool2var (fst (init_search_eh (init_search_eh s))) \<noteq> m_bool2var (fst (init_search_eh s)))"
proof -
  let ?vars = "m_vars (fst s)"
  let ?s1 = "init_search_eh s"
  let ?s2 = "init_search_eh ?s1"
  let ?base = "length (m_var2enode (fst s))"
  have s1: "?s1 = fold bind_var ?vars s"
    by (simp add: init_search_eh_def split_beta)
  have vars1: "m_vars (fst ?s1) = ?vars"
    by (rule init_search_eh_frame)
  have s2: "?s2 = fold bind_var ?vars ?s1"
    using vars1 by (simp add: init_search_eh_def split_beta)
  have e1: "m_var2enode (fst ?s1) = m_var2enode (fst s) @ ?vars"
    unfolding s1 by (rule fold_bind_var_enodes)
  have e2: "m_var2enode (fst ?s2) = m_var2enode (fst s) @ ?vars @ ?vars"
    using fold_bind_var_enodes[of ?vars ?s1] e1 s2 by simp
  have int1: "internalized (snd ?s1) (?vars ! i) \<and>
      (\<exists>bv. bool_var_of (snd ?s1) (?vars ! i) = Some bv \<and>
         m_var2bool (fst ?s1) (?base + i) = Some bv)" if "i < length ?vars" for i
    using fold_bind_var_internalizes[OF that, of s] s1 by simp
  have all1: "\<forall>x \<in> set ?vars. internalized (snd ?s1) x"
    using int1 by (auto simp: in_set_conv_nth)
  have host: "enodes (snd ?s2) = enodes (snd ?s1) \<and>
      bool_var_of (snd ?s2) = bool_var_of (snd ?s1) \<and>
      num_bool_vars (snd ?s2) = num_bool_vars (snd ?s1) \<and>
      var_theory (snd ?s2) = var_theory (snd ?s1) \<and>
      enode_flag (snd ?s2) = enode_flag (snd ?s1)"
    using fold_bind_var_host_idem[OF all1] s2 by simp
  have int2: "\<exists>bv. bool_var_of (snd ?s1) (?vars ! i) = Some bv \<and>
         m_var2bool (fst ?s1) (?base + i) = Some bv \<and>
         m_var2bool (fst ?s2) (?base + length ?vars + i) = Some bv" if "i < length ?vars" for i
  proof -
    from int1[OF that] obtain bv where bv: "bool_var_of (snd ?s1) (?vars ! i) = Some bv"
      "m_var2bool (fst ?s1) (?base + i) = Some bv" by blast
    from fold_bind_var_internalizes[OF that, of ?s1] obtain bv' where bv':
      "bool_var_of (snd ?s2) (?vars ! i) = Some bv'"
      "m_var2bool (fst ?s2) (length (m_var2enode (fst ?s1)) + i) = Some bv'"
      using s2 by auto
    from bv'(1) host bv(1) have "bv' = bv" by simp
    with bv bv'(2) e1 show ?thesis by simp
  qed
  have differ: "m_bool2var (fst ?s2) \<noteq> m_bool2var (fst ?s1)" if "?vars \<noteq> []"
  proof -
    from that obtain xs x where xs: "?vars = xs @ [x]"
      by (metis append_butlast_last_id)
    from fold_bind_var_last[of xs x s] obtain bv where bv:
      "bool_var_of (snd ?s1) x = Some bv" "m_bool2var (fst ?s1) bv = Some (?base + length xs)"
      using s1 xs by auto
    from fold_bind_var_last[of xs x ?s1] obtain bv' where bv':
      "bool_var_of (snd ?s2) x = Some bv'"
      "m_bool2var (fst ?s2) bv' = Some (length (m_var2enode (fst ?s1)) + length xs)"
      using s2 xs by auto
    from bv'(1) host bv(1) have "bv' = bv" by simp
    with bv'(2) e1 xs have "m_bool2var (fst ?s2) bv = Some (?base + Suc (length xs) + length xs)"
      by simp
    with bv(2) have "m_bool2var (fst ?s2) bv \<noteq> m_bool2var (fst ?s1) bv" by simp
    then show ?thesis by auto
  qed
  show ?thesis
    using e1 e2 int1 int2 host differ by blast
qed

lemma internalized_example_start: "internalized (snd example_start) (Fresh_const 0)"
  by (simp add: internalized_def example_defs plugin_defs host_defs Let_def)

text \<open>The lemma at \<open>example_registered\<close>, whose binding is \<open>example_start\<close>.\<close>

lemma init_search_eh_rebinds_example:
  "m_vars (fst example_registered) = [Fresh_const 0, Fresh_const 1, Fresh_const 2] \<and>
   init_search_eh example_registered = example_start \<and>
   m_var2enode (fst example_start) = [Fresh_const 0, Fresh_const 1, Fresh_const 2] \<and>
   m_var2enode (fst (init_search_eh example_start)) =
     [Fresh_const 0, Fresh_const 1, Fresh_const 2, Fresh_const 0, Fresh_const 1, Fresh_const 2] \<and>
   internalized (snd example_start) (Fresh_const 0) \<and>
   bool_var_of (snd (init_search_eh example_start)) = bool_var_of (snd example_start) \<and>
   num_bool_vars (snd (init_search_eh example_start)) = num_bool_vars (snd example_start) \<and>
   m_bool2var (fst (init_search_eh example_start)) \<noteq> m_bool2var (fst example_start)"
proof -
  have v: "m_vars (fst example_registered) = [Fresh_const 0, Fresh_const 1, Fresh_const 2]"
    "m_var2enode (fst example_registered) = []"
    by (simp_all add: example_defs plugin_defs host_defs Let_def)
  have st: "init_search_eh example_registered = example_start"
    by (simp add: example_start_def)
  note t = init_search_eh_rebinds[of example_registered, unfolded st v]
  from t have a: "m_var2enode (fst example_start) = [Fresh_const 0, Fresh_const 1, Fresh_const 2]"
    and b: "m_var2enode (fst (init_search_eh example_start)) =
     [Fresh_const 0, Fresh_const 1, Fresh_const 2, Fresh_const 0, Fresh_const 1, Fresh_const 2]"
    and c: "bool_var_of (snd (init_search_eh example_start)) = bool_var_of (snd example_start)"
    and d: "num_bool_vars (snd (init_search_eh example_start)) = num_bool_vars (snd example_start)"
    and e: "m_bool2var (fst (init_search_eh example_start)) \<noteq> m_bool2var (fst example_start)"
    by simp_all
  show ?thesis
    by (intro conjI) (fact v(1) st a b internalized_example_start c d e)+
qed

text \<open>Claim C9. \<^verbatim>\<open>init_search_eh\<close> does not skip a constraint that is already bound (for every
  state, see \<open>init_search_eh_rebinds\<close>). At
  \<open>example_start\<close> (three constraints, bound once) decision 0 is bound to theory variable 0;
  after a second call it is bound to theory variable 3, which has no weight (\<^verbatim>\<open>m_weights\<close>
  has three entries, \<^verbatim>\<open>m_var2enode\<close> six), and \<^verbatim>\<open>assign_eh\<close> for decision 0, which returned
  before, reads \<^verbatim>\<open>m_weights[3]\<close> past the end. When \<^verbatim>\<open>weighted_maxsat\<close> is called twice on
  one solver, with \<open>Atom 0\<close> of weight 3 and then with \<open>Atom 1\<close> of weight 5, the second
  search binds decision 0, the relaxation literal of \<open>Atom 0\<close>, to theory variable 1 and
  decision 1 to theory variable 2: assigning decision 0 charges the weight 5 of \<open>Atom 1\<close>,
  the saved set becomes \<open>[1]\<close>, and the formula returned as satisfied is \<open>Atom 0\<close>, the
  one that was relaxed.\<close>

theorem init_search_eh_twice:
  "(m_bool2var (fst example_start) 0,
    m_bool2var (fst (init_search_eh example_start)) 0,
    m_var2bool (fst example_start) 3,
    m_var2bool (fst (init_search_eh example_start)) 3,
    length (m_var2enode (fst example_start)),
    length (m_var2enode (fst (init_search_eh example_start))),
    length (m_weights (fst (init_search_eh example_start))),
    map_option (\<lambda>s. m_costs (fst s)) (assign_eh insertion_sort 0 True example_start),
    map_option (\<lambda>s. m_costs (fst s))
      (assign_eh insertion_sort 0 True (init_search_eh example_start)))
   = (Some 0, Some 3, None, Some 0, 3, 6, 3, Some [0], None) \<and>
   Option.bind (weighted_maxsat (example_search []) (None, empty_context) [Atom 0] [3])
     (\<lambda>(r1, soft1, th1, ctx1). map_option
        (\<lambda>(r2, soft2, th2, ctx2). (r1, soft1, m_bool2var th1 0, m_fmls th2, m_weights th2,
           m_bool2var th2 0, m_bool2var th2 1, m_costs th2, m_cost th2, m_cost_save th2,
           r2, soft2))
        (weighted_maxsat (example_search [Assign 0 True, Final_check]) (Some th1, ctx1)
           [Atom 1] [5]))
   = Some (l_true, [Atom 0], Some 0, [Atom 0, Atom 1], [3, 5],
           Some 1, Some 2, [1], 5, [1], l_true, [Atom 0])"
  by code_simp

end
